theory Spec2Isabelle
  imports Complex_Main "HOL-Library.Multiset"
begin

section \<open>Camera and perspective-projection core of the hexagon terrain explorer\<close>

text \<open>
  A shallow embedding of the camera, ground sampler, projector and draw-queue code of
  the explorer (the \<^verbatim>\<open>Game\<close> component with the first-person canvas view) and of the
  polygon helper of the tiling module.

  The code is embedded in two arithmetics.

  In the first a JavaScript \<^verbatim>\<open>number\<close> is a \<^typ>\<open>real\<close>: arithmetic is exact, and the
  values \<^verbatim>\<open>NaN\<close> and \<^verbatim>\<open>Infinity\<close> are not numbers of the model. The one place
  where the source uses \<^verbatim>\<open>Number.POSITIVE_INFINITY\<close> (the running minimum of the
  nearest-tile scan) is modelled with an option, \<open>None\<close> standing for infinity. This
  embedding carries the properties of the frame update, of the pointer handler, of the
  draw queue and of the polygon string, which relate results of the program to each
  other.

  In the second a \<^verbatim>\<open>number\<close> is a binary64 value as IEEE 754 has it: finite, an
  infinity or \<^verbatim>\<open>NaN\<close>, with every operation rounded to nearest, ties to even. The
  functions \<^verbatim>\<open>wrapAngle\<close>, \<^verbatim>\<open>findNearestTileIndex\<close>, \<^verbatim>\<open>sampleGroundHeight\<close>,
  \<^verbatim>\<open>initialCamera\<close> and \<^verbatim>\<open>projectPoint\<close> are embedded a second time in that
  arithmetic, with the suffix \<open>_f64\<close>; what is proved of an angle, a distance, a mean
  or a depth that one of them computes is proved of these.
\<close>

subsection \<open>Constants\<close>

definition HEX_SIZE :: real where "HEX_SIZE = 18"
definition HEIGHT_SCALE :: real where "HEIGHT_SCALE = 26"
definition HUMAN_EYE_HEIGHT :: real where "HUMAN_EYE_HEIGHT = 1.72"
definition WALK_SPEED :: real where "WALK_SPEED = 20"
definition FLY_SPEED :: real where "FLY_SPEED = 32"
definition VERTICAL_FLY_SPEED :: real where "VERTICAL_FLY_SPEED = 22"
definition LOOK_SENSITIVITY :: real where "LOOK_SENSITIVITY = 0.0032"
definition NEAR_PLANE :: real where "NEAR_PLANE = 0.5"
definition FAR_PLANE :: real where "FAR_PLANE = 1100"
definition FOV_RAD :: real where "FOV_RAD = pi / 3"
definition CAMERA_UPDATE_MS :: real where "CAMERA_UPDATE_MS = 100"

subsection \<open>Data model\<close>

datatype ExplorerMode = Walk | Fly

record CameraPose =
  cam_x :: real
  cam_y :: real
  cam_z :: real
  cam_yaw :: real
  cam_pitch :: real

text \<open>\<^verbatim>\<open>CameraHud = CameraPose & { ground: number }\<close>.\<close>

record CameraHud =
  hud_pose :: CameraPose
  hud_ground :: real

text \<open>
  The terrain payload of a tile comes from the world generator; its enumerations are
  numeric, its last three fields optional.
\<close>

record TerrainCell =
  terrain_height :: real
  terrain_heat :: real
  terrain_moisture :: real
  terrain_biome :: nat
  terrain_macroBiome :: "nat option"
  terrain_surface :: "nat option"
  terrain_feature :: "nat option"

record HexMapTile =
  tile_q :: int
  tile_r :: int
  tile_x :: real
  tile_y :: real
  tile_points :: string
  tile_color :: string
  tile_terrain :: TerrainCell

text \<open>A planar hexagon vertex \<^verbatim>\<open>{ x, z }\<close> and a world point \<^verbatim>\<open>{ x, y, z }\<close>.\<close>

record Corner =
  corner_x :: real
  corner_z :: real

record WorldPoint =
  point_x :: real
  point_y :: real
  point_z :: real

record ProjectedPoint =
  proj_x :: real
  proj_y :: real
  proj_depth :: real

text \<open>
  An entry of the draw queue. The \<^verbatim>\<open>Path2D\<close> is the list of projected corners it is
  traced through (move to the first, line to the others, close). The fill colour is
  kept as the two arguments handed to \<^verbatim>\<open>tintHex\<close>, the tile's colour string and the
  tint amount; the hexadecimal re-encoding of the tinted colour is not modelled.
\<close>

record DrawItem =
  item_path :: "ProjectedPoint list"
  item_color :: "string \<times> real"
  item_depth :: real
  item_highlighted :: bool

text \<open>The drag record \<^verbatim>\<open>dragRef.current\<close> and the fields of a pointer event that are read.\<close>

record DragState =
  drag_active :: bool
  drag_pointerId :: int
  drag_lastX :: real
  drag_lastY :: real

record PointerEvent =
  ev_pointerId :: int
  ev_clientX :: real
  ev_clientY :: real

text \<open>
  What the frame callback \<^verbatim>\<open>tick\<close> reads and writes besides the tiles, the mode and
  the held keys: the camera (\<^verbatim>\<open>cameraRef.current\<close>), the closure variables
  \<^verbatim>\<open>lastTime\<close> and \<^verbatim>\<open>hudAccumulator\<close>, and the two pieces of HUD state.
\<close>

record LoopState =
  ls_camera :: CameraPose
  ls_lastTime :: real
  ls_hudAccumulator :: real
  ls_selectedIndex :: nat
  ls_cameraHud :: CameraHud

subsection \<open>Geometry helpers\<close>

text \<open>\<^verbatim>\<open>Math.min(max, Math.max(min, value))\<close>.\<close>

definition clamp :: "real \<Rightarrow> real \<Rightarrow> real \<Rightarrow> real" where
  "clamp v lo hi = min hi (max lo v)"

text \<open>
  The remainder operator \<^verbatim>\<open>a % b\<close> on numbers: the quotient is truncated towards
  zero, so the result has the sign of the dividend. (For \<open>b = 0\<close> JavaScript gives
  \<^verbatim>\<open>NaN\<close>; the only divisor used below is \<open>2 * pi\<close>.)
\<close>

definition js_rem :: "real \<Rightarrow> real \<Rightarrow> real" where
  "js_rem a b = a - b * of_int (if a / b < 0 then \<lceil>a / b\<rceil> else \<lfloor>a / b\<rfloor>)"

text \<open>
  \<^verbatim>\<open>wrapAngle\<close> in exact arithmetic, the full turn being \<open>2 * pi\<close>. In binary64 it is
  \<open>wrapAngle_f64\<close> below.
\<close>

definition wrapAngle :: "real \<Rightarrow> real" where
  "wrapAngle v =
     (let full = pi * 2;
          wrapped = js_rem (js_rem v full + full) full
      in if wrapped > pi then wrapped - full else wrapped)"

text \<open>
  The loop of \<^verbatim>\<open>hexCorners\<close>: \<^verbatim>\<open>for (let i = 0; i < 6; i += 1) points.push(...)\<close>.
  The parameter \<^verbatim>\<open>size\<close> is written \<open>hsize\<close>.
\<close>

function hexCorners_loop :: "real \<Rightarrow> real \<Rightarrow> real \<Rightarrow> nat \<Rightarrow> Corner list \<Rightarrow> Corner list" where
  "hexCorners_loop centerX centerZ hsize i points =
     (if i < 6 then
        (let angle = (pi / 180) * (60 * real i + 30)
         in hexCorners_loop centerX centerZ hsize (i + 1)
              (points @ [\<lparr>corner_x = centerX + hsize * cos angle,
                          corner_z = centerZ + hsize * sin angle\<rparr>]))
      else points)"
  by pat_completeness auto
termination
  by (relation "measure (\<lambda>(centerX, centerZ, hsize, i, points). 6 - i)") auto

definition hexCorners :: "real \<Rightarrow> real \<Rightarrow> real \<Rightarrow> Corner list" where
  "hexCorners centerX centerZ hsize = hexCorners_loop centerX centerZ hsize 0 []"

subsection \<open>Ground sampler\<close>

text \<open>
  \<^verbatim>\<open>distance < nearestDistance\<close>, where \<^verbatim>\<open>nearestDistance\<close> starts as
  \<^verbatim>\<open>Number.POSITIVE_INFINITY\<close> (\<open>None\<close>). The scan in exact arithmetic; in binary64
  it is \<open>findNearestTileIndex_f64\<close> below.
\<close>

fun less_than_nearest :: "real \<Rightarrow> real option \<Rightarrow> bool" where
  "less_than_nearest distance None = True"
| "less_than_nearest distance (Some nearestDistance) = (distance < nearestDistance)"

function findNearestTileIndex_loop ::
  "HexMapTile list \<Rightarrow> real \<Rightarrow> real \<Rightarrow> nat \<Rightarrow> nat \<Rightarrow> real option \<Rightarrow> nat" where
  "findNearestTileIndex_loop tiles x z index nearestIndex nearestDistance =
     (if index < length tiles then
        (let tile = tiles ! index;
             dx = tile_x tile - x;
             dz = tile_y tile - z;
             distance = dx * dx + dz * dz
         in if less_than_nearest distance nearestDistance
            then findNearestTileIndex_loop tiles x z (index + 1) index (Some distance)
            else findNearestTileIndex_loop tiles x z (index + 1) nearestIndex nearestDistance)
      else nearestIndex)"
  by pat_completeness auto
termination
  by (relation "measure (\<lambda>(tiles, x, z, index, nearestIndex, nearestDistance).
        length tiles - index)") auto

definition findNearestTileIndex :: "HexMapTile list \<Rightarrow> real \<Rightarrow> real \<Rightarrow> nat" where
  "findNearestTileIndex tiles x z =
     (if length tiles = 0 then 0
      else findNearestTileIndex_loop tiles x z 0 0 None)"

text \<open>
  \<^verbatim>\<open>tiles[index]\<close> is \<^verbatim>\<open>undefined\<close> exactly when the index is out of range, and then
  the function returns 0.
\<close>

definition sampleGroundHeight :: "HexMapTile list \<Rightarrow> real \<Rightarrow> real \<Rightarrow> real" where
  "sampleGroundHeight tiles x z =
     (let index = findNearestTileIndex tiles x z
      in if index < length tiles
         then terrain_height (tile_terrain (tiles ! index)) * HEIGHT_SCALE
         else 0)"

subsection \<open>Perspective projector\<close>

text \<open>
  The result \<^verbatim>\<open>null\<close> is \<open>None\<close>. The projector in exact arithmetic; in binary64 it
  is \<open>projectPoint_f64\<close> below.
\<close>

definition projectPoint ::
  "WorldPoint \<Rightarrow> CameraPose \<Rightarrow> real \<Rightarrow> real \<Rightarrow> real \<Rightarrow> ProjectedPoint option" where
  "projectPoint point camera viewportWidth viewportHeight focalLength =
     (let dx = point_x point - cam_x camera;
          dy = point_y point - cam_y camera;
          dz = point_z point - cam_z camera;
          sinYaw = sin (cam_yaw camera);
          cosYaw = cos (cam_yaw camera);
          xYaw = cosYaw * dx - sinYaw * dz;
          zYaw = sinYaw * dx + cosYaw * dz;
          sinPitch = sin (cam_pitch camera);
          cosPitch = cos (cam_pitch camera);
          yPitch = cosPitch * dy - sinPitch * zYaw;
          zPitch = sinPitch * dy + cosPitch * zYaw
      in if zPitch \<le> NEAR_PLANE \<or> zPitch \<ge> FAR_PLANE then None
         else Some \<lparr>proj_x = viewportWidth * 0.5 + (xYaw / zPitch) * focalLength,
                     proj_y = viewportHeight * 0.57 - (yPitch / zPitch) * focalLength,
                     proj_depth = zPitch\<rparr>)"

subsection \<open>Scene renderer: the draw queue\<close>

text \<open>
  The inner loop of \<^verbatim>\<open>renderScene\<close> over the corners of one tile. It pushes each
  projection and adds up the depths; at the first rejected corner it sets
  \<^verbatim>\<open>valid = false\<close> and breaks, which is the result \<open>None\<close>.
\<close>

fun projectCorners ::
  "CameraPose \<Rightarrow> real \<Rightarrow> real \<Rightarrow> real \<Rightarrow> real \<Rightarrow> Corner list \<Rightarrow>
   ProjectedPoint list \<Rightarrow> real \<Rightarrow> (ProjectedPoint list \<times> real) option" where
  "projectCorners camera width height focalLength elevation [] projectedCorners depthTotal =
     Some (projectedCorners, depthTotal)"
| "projectCorners camera width height focalLength elevation (corner # corners)
     projectedCorners depthTotal =
     (case projectPoint
             \<lparr>point_x = corner_x corner, point_y = elevation, point_z = corner_z corner\<rparr>
             camera width height focalLength of
        None \<Rightarrow> None
      | Some projected \<Rightarrow>
          projectCorners camera width height focalLength elevation corners
            (projectedCorners @ [projected]) (depthTotal + proj_depth projected))"

text \<open>
  The body of the loop over the tiles: the draw item pushed for the tile at \<open>index\<close>,
  or \<open>None\<close> where the source does \<^verbatim>\<open>continue\<close>.
\<close>

definition tileDrawItem ::
  "CameraPose \<Rightarrow> real \<Rightarrow> real \<Rightarrow> real \<Rightarrow> nat \<Rightarrow> nat \<Rightarrow> HexMapTile \<Rightarrow> DrawItem option" where
  "tileDrawItem camera width height focalLength selectedIndex index tile =
     (let elevation = terrain_height (tile_terrain tile) * HEIGHT_SCALE;
          corners = hexCorners (tile_x tile) (tile_y tile) HEX_SIZE
      in case projectCorners camera width height focalLength elevation corners [] 0 of
           None \<Rightarrow> None
         | Some (projectedCorners, depthTotal) \<Rightarrow>
             if length projectedCorners = 0 then None
             else
               (let depth = depthTotal / real (length projectedCorners);
                    distanceShade = clamp (1 - depth / 520) 0.2 1;
                    elevationShade = clamp ((elevation / HEIGHT_SCALE - 0.5) * 0.25) (- 0.16) 0.18
                in Some \<lparr>item_path = projectedCorners,
                           item_color = (tile_color tile, distanceShade - 1 + elevationShade),
                           item_depth = depth,
                           item_highlighted = (index = selectedIndex)\<rparr>))"

function drawQueue_loop ::
  "HexMapTile list \<Rightarrow> CameraPose \<Rightarrow> real \<Rightarrow> real \<Rightarrow> real \<Rightarrow> nat \<Rightarrow> nat \<Rightarrow>
   DrawItem list \<Rightarrow> DrawItem list" where
  "drawQueue_loop tiles camera width height focalLength selectedIndex index drawQueue =
     (if index < length tiles then
        (case tileDrawItem camera width height focalLength selectedIndex index (tiles ! index) of
           None \<Rightarrow>
             drawQueue_loop tiles camera width height focalLength selectedIndex (index + 1)
               drawQueue
         | Some item \<Rightarrow>
             drawQueue_loop tiles camera width height focalLength selectedIndex (index + 1)
               (drawQueue @ [item]))
      else drawQueue)"
  by pat_completeness auto
termination
  by (relation "measure (\<lambda>(tiles, camera, width, height, focalLength, selectedIndex, index,
        drawQueue). length tiles - index)") auto

text \<open>
  \<^verbatim>\<open>Array.prototype.sort(comparefn)\<close>: a stable sort in the order of the comparator
  (a negative result puts the first argument first). It is modelled as an insertion
  sort that puts each element behind those it does not precede.
\<close>

fun array_insert :: "('a \<Rightarrow> 'a \<Rightarrow> real) \<Rightarrow> 'a \<Rightarrow> 'a list \<Rightarrow> 'a list" where
  "array_insert comparefn v [] = [v]"
| "array_insert comparefn v (w # ws) =
     (if comparefn v w < 0 then v # w # ws else w # array_insert comparefn v ws)"

definition array_sort :: "('a \<Rightarrow> 'a \<Rightarrow> real) \<Rightarrow> 'a list \<Rightarrow> 'a list" where
  "array_sort comparefn xs = foldl (\<lambda>sorted v. array_insert comparefn v sorted) [] xs"

text \<open>
  \<^verbatim>\<open>renderScene\<close>, as far as the draw queue goes: the result is the queue after
  \<^verbatim>\<open>drawQueue.sort((a, b) => b.depth - a.depth)\<close>, whose items are then filled and
  stroked one after the other. \<open>width\<close> and \<open>height\<close> are those of the canvas. The sky
  gradient and the crosshair, drawn before and after the queue, are not modelled.
\<close>

definition renderScene ::
  "real \<Rightarrow> real \<Rightarrow> HexMapTile list \<Rightarrow> CameraPose \<Rightarrow> nat \<Rightarrow> DrawItem list" where
  "renderScene width height tiles camera selectedIndex =
     (let focalLength = (height * 0.86) / tan (FOV_RAD * 0.5);
          drawQueue = drawQueue_loop tiles camera width height focalLength selectedIndex 0 []
      in array_sort (\<lambda>a b. item_depth b - item_depth a) drawQueue)"

subsection \<open>Input and render loop\<close>

text \<open>
  The frame callback \<^verbatim>\<open>tick(now)\<close> is given in three parts. \<open>mode\<close> and \<open>tiles\<close> are
  captured by its closure, \<open>keys\<close> is the set \<^verbatim>\<open>keysRef.current\<close> of held key codes.

  First the planar movement: from \<^verbatim>\<open>const sprint = ...\<close> to the end of
  \<^verbatim>\<open>if (inputLength > 0) { ... }\<close>. \<^verbatim>\<open>Math.hypot\<close> is the root of the sum of squares.
\<close>

definition tick_move :: "ExplorerMode \<Rightarrow> string set \<Rightarrow> real \<Rightarrow> CameraPose \<Rightarrow> CameraPose" where
  "tick_move mode keys deltaSeconds camera =
     (let sprint = (''ShiftLeft'' \<in> keys \<or> ''ShiftRight'' \<in> keys);
          baseSpeed = (if mode = Fly then FLY_SPEED else WALK_SPEED);
          speed = (if sprint then baseSpeed * 1.85 else baseSpeed);
          inputZ = 0 + (if ''KeyW'' \<in> keys \<or> ''ArrowUp'' \<in> keys then 1 else 0)
                 - (if ''KeyS'' \<in> keys \<or> ''ArrowDown'' \<in> keys then 1 else 0);
          inputX = 0 - (if ''KeyA'' \<in> keys \<or> ''ArrowLeft'' \<in> keys then 1 else 0)
                 + (if ''KeyD'' \<in> keys \<or> ''ArrowRight'' \<in> keys then 1 else 0);
          inputLength = sqrt (inputX * inputX + inputZ * inputZ)
      in if inputLength > 0 then
           (let nx = inputX / inputLength;
                nz = inputZ / inputLength;
                sinYaw = sin (cam_yaw camera);
                cosYaw = cos (cam_yaw camera)
            in camera
                \<lparr>cam_x := cam_x camera + (nx * cosYaw + nz * sinYaw) * speed * deltaSeconds,
                 cam_z := cam_z camera + (nz * cosYaw - nx * sinYaw) * speed * deltaSeconds\<rparr>)
         else camera)"

text \<open>
  Then the height, given the ground sampled at the new position: the statement
  \<^verbatim>\<open>if (mode === "walk") { ... } else { ... }\<close>.
\<close>

definition tick_height ::
  "ExplorerMode \<Rightarrow> string set \<Rightarrow> real \<Rightarrow> real \<Rightarrow> CameraPose \<Rightarrow> CameraPose" where
  "tick_height mode keys deltaSeconds ground camera =
     (if mode = Walk then camera\<lparr>cam_y := ground + HUMAN_EYE_HEIGHT\<rparr>
      else
        (let verticalInput =
               0 + (if ''Space'' \<in> keys \<or> ''KeyE'' \<in> keys then 1 else 0)
                 - (if ''KeyC'' \<in> keys \<or> ''KeyQ'' \<in> keys then 1 else 0);
             raised = camera\<lparr>cam_y := cam_y camera + verticalInput * VERTICAL_FLY_SPEED * deltaSeconds\<rparr>
         in raised\<lparr>cam_y := max (cam_y raised) (ground + 0.6)\<rparr>))"

text \<open>
  The whole callback. The result is the state after it; the frame it draws is
  \<^const>\<open>renderScene\<close> of the updated camera and \<open>nearestIndex\<close>. Resizing the
  canvas and requesting the next frame are left out. (The effect that installs the
  callback returns early on an empty tile list, so the loop only runs with tiles; the
  definition does not depend on that.)
\<close>

definition tick ::
  "ExplorerMode \<Rightarrow> HexMapTile list \<Rightarrow> string set \<Rightarrow> real \<Rightarrow> LoopState \<Rightarrow> LoopState" where
  "tick mode tiles keys now st =
     (let camera = ls_camera st;
          deltaSeconds = min 0.05 ((now - ls_lastTime st) / 1000);
          camera = tick_move mode keys deltaSeconds camera;
          ground = sampleGroundHeight tiles (cam_x camera) (cam_z camera);
          camera = tick_height mode keys deltaSeconds ground camera;
          camera = camera\<lparr>cam_pitch := clamp (cam_pitch camera) (- 1.2) 0.75\<rparr>;
          camera = camera\<lparr>cam_yaw := wrapAngle (cam_yaw camera)\<rparr>;
          nearestIndex = findNearestTileIndex tiles (cam_x camera) (cam_z camera);
          hudAccumulator = ls_hudAccumulator st + deltaSeconds * 1000
      in if hudAccumulator \<ge> CAMERA_UPDATE_MS
         then \<lparr>ls_camera = camera, ls_lastTime = now, ls_hudAccumulator = 0,
                ls_selectedIndex = nearestIndex,
                ls_cameraHud = \<lparr>hud_pose = camera, hud_ground = ground\<rparr>\<rparr>
         else \<lparr>ls_camera = camera, ls_lastTime = now, ls_hudAccumulator = hudAccumulator,
                ls_selectedIndex = ls_selectedIndex st,
                ls_cameraHud = ls_cameraHud st\<rparr>)"

text \<open>
  \<^verbatim>\<open>handlePointerMove\<close>: the drag record and the camera before and after a pointer-move
  event. Outside a drag of the same pointer the handler returns at once.
\<close>

definition handlePointerMove ::
  "PointerEvent \<Rightarrow> DragState \<times> CameraPose \<Rightarrow> DragState \<times> CameraPose" where
  "handlePointerMove event st =
     (let drag = fst st; camera = snd st
      in if \<not> drag_active drag \<or> drag_pointerId drag \<noteq> ev_pointerId event then (drag, camera)
         else
           (let dx = ev_clientX event - drag_lastX drag;
                dy = ev_clientY event - drag_lastY drag;
                drag' = drag\<lparr>drag_lastX := ev_clientX event, drag_lastY := ev_clientY event\<rparr>;
                turned = camera\<lparr>cam_yaw := wrapAngle (cam_yaw camera + dx * LOOK_SENSITIVITY)\<rparr>;
                pitched = turned
                  \<lparr>cam_pitch := clamp (cam_pitch turned - dy * LOOK_SENSITIVITY * 0.82) (- 1.2) 0.75\<rparr>
            in (drag', pitched)))"

subsection \<open>Polygon strings of the tiling helper\<close>

text \<open>The decimal digits of a natural number.\<close>

definition digitChar :: "nat \<Rightarrow> char" where
  "digitChar d = ''0123456789'' ! d"

fun natToString :: "nat \<Rightarrow> string" where
  "natToString n =
     (if n < 10 then [digitChar n] else natToString (n div 10) @ [digitChar (n mod 10)])"

text \<open>
  \<^verbatim>\<open>Number.prototype.toFixed(f)\<close>, following the steps of the language standard: the
  sign is split off, \<open>n\<close> is the integer nearest to \<open>x * 10 ^ f\<close> (the larger one on a
  tie), its digits are padded with zeros to more than \<open>f\<close> digits, and the point is put
  before the last \<open>f\<close>. From \<open>10 ^ 21\<close> on the standard prints the number as
  \<^verbatim>\<open>Number::toString\<close> does, in the exponent notation of its binary representation;
  that printer is the parameter \<open>numberToString\<close>.
\<close>

definition toFixed :: "(real \<Rightarrow> string) \<Rightarrow> real \<Rightarrow> nat \<Rightarrow> string" where
  "toFixed numberToString v f =
     (let s = (if v < 0 then ''-'' else '''');
          x = (if v < 0 then - v else v)
      in if x \<ge> 10 ^ 21 then s @ numberToString x
         else
           (let n = nat \<lfloor>x * 10 ^ f + 1 / 2\<rfloor>;
                m = (if n = 0 then ''0'' else natToString n);
                m = (if f \<noteq> 0 then
                       (let k = length m;
                            m = (if k \<le> f then replicate (f + 1 - k) (CHR ''0'') @ m else m);
                            k = (if k \<le> f then f + 1 else k)
                        in take (k - f) m @ ''.'' @ drop (k - f) m)
                     else m)
            in s @ m))"

text \<open>\<^verbatim>\<open>Array.prototype.join(separator)\<close> on an array of strings.\<close>

fun joinStrings :: "string \<Rightarrow> string list \<Rightarrow> string" where
  "joinStrings separator [] = []"
| "joinStrings separator [s] = s"
| "joinStrings separator (s # t # ss) = s @ separator @ joinStrings separator (t # ss)"

function hexPolygonPoints_loop ::
  "(real \<Rightarrow> string) \<Rightarrow> real \<Rightarrow> real \<Rightarrow> real \<Rightarrow> nat \<Rightarrow> string list \<Rightarrow> string list" where
  "hexPolygonPoints_loop numberToString x y hsize i points =
     (if i < 6 then
        (let angle = (pi / 180) * (60 * real i + 30);
             px = x + hsize * cos angle;
             py = y + hsize * sin angle
         in hexPolygonPoints_loop numberToString x y hsize (i + 1)
              (points @ [toFixed numberToString px 2 @ '','' @ toFixed numberToString py 2]))
      else points)"
  by pat_completeness auto
termination
  by (relation "measure (\<lambda>(numberToString, x, y, hsize, i, points). 6 - i)") auto

definition hexPolygonPoints :: "(real \<Rightarrow> string) \<Rightarrow> real \<Rightarrow> real \<Rightarrow> real \<Rightarrow> string" where
  "hexPolygonPoints numberToString x y hsize =
     joinStrings '' '' (hexPolygonPoints_loop numberToString x y hsize 0 [])"

subsection \<open>The orientation invariant of the camera pose\<close>

definition orientation_ok :: "CameraPose \<Rightarrow> bool" where
  "orientation_ok camera =
     (- 1.2 \<le> cam_pitch camera \<and> cam_pitch camera \<le> 0.75 \<and>
      - pi < cam_yaw camera \<and> cam_yaw camera \<le> pi)"

subsection \<open>Notions used in the statements\<close>

text \<open>
  The squared planar distance from a tile centre to \<open>(x, z)\<close>, in exact arithmetic.
\<close>

definition squaredDistance :: "HexMapTile \<Rightarrow> real \<Rightarrow> real \<Rightarrow> real" where
  "squaredDistance tile x z =
     (tile_x tile - x) * (tile_x tile - x) + (tile_y tile - z) * (tile_y tile - z)"

text \<open>A tile at a given position and terrain height, for concrete scenes.\<close>

definition exampleTile :: "real \<Rightarrow> real \<Rightarrow> real \<Rightarrow> HexMapTile" where
  "exampleTile x y h =
     \<lparr>tile_q = 0, tile_r = 0, tile_x = x, tile_y = y, tile_points = [],
      tile_color = ''#89bf67'',
      tile_terrain = \<lparr>terrain_height = h, terrain_heat = 0.5, terrain_moisture = 0.4,
        terrain_biome = 0, terrain_macroBiome = None, terrain_surface = None,
        terrain_feature = None\<rparr>\<rparr>"

text \<open>A corner as it is written into the polygon string: \<^verbatim>\<open>`${px.toFixed(2)},${py.toFixed(2)}`\<close>.\<close>

definition cornerString :: "(real \<Rightarrow> string) \<Rightarrow> Corner \<Rightarrow> string" where
  "cornerString numberToString corner =
     toFixed numberToString (corner_x corner) 2 @ '','' @ toFixed numberToString (corner_z corner) 2"

text \<open>
  A draw item whose path has six corners and whose depth is the mean of their depths.
\<close>

definition averageDepth :: "DrawItem \<Rightarrow> bool" where
  "averageDepth item =
     (length (item_path item) = 6 \<and>
      item_depth item = sum_list (map proj_depth (item_path item)) / 6)"

text \<open>A camera at height 30 above the origin that looks straight along the \<open>z\<close> axis.\<close>

definition exampleCamera :: CameraPose where
  "exampleCamera = \<lparr>cam_x = 0, cam_y = 30, cam_z = 0, cam_yaw = 0, cam_pitch = 0\<rparr>"

section \<open>Binary64 arithmetic\<close>

text \<open>
  A JavaScript \<^verbatim>\<open>number\<close> as IEEE 754 binary64 has it: a finite value, one of the two
  infinities, or \<^verbatim>\<open>NaN\<close>. A finite value is kept as the real number it denotes; the
  numbers of the format are the reals that \<open>round64\<close> leaves unchanged, and every
  operation returns one of them, an infinity or \<^verbatim>\<open>NaN\<close>. What is proved for every
  \<open>Fin r\<close> holds in particular for every number of the format. The two zeros are not
  told apart: the functions embedded below divide only by a depth beyond the near
  plane and by the length of a non-empty array, and compare and add their other
  results, which the sign of a zero does not change.
\<close>

datatype f64 = Fin real | PosInf | NegInf | NaN

text \<open>The power \<open>2 ^ e\<close> for an integer exponent of either sign.\<close>

definition pow2 :: "int \<Rightarrow> real" where
  "pow2 e = 2 powr of_int e"

text \<open>Rounding a real to the nearest integer, a tie going to the even neighbour.\<close>

definition roundHalfEven :: "real \<Rightarrow> int" where
  "roundHalfEven y =
     (let f = \<lfloor>y\<rfloor>; d = y - of_int f
      in if d < 1 / 2 then f else if d > 1 / 2 then f + 1 else if even f then f else f + 1)"

text \<open>
  The exponent of the binade of \<open>x\<close>: \<open>2 ^ e \<le> \<bar>x\<bar> < 2 ^ (e + 1)\<close>, and -1022 for the
  subnormal numbers below \<open>2 ^ (- 1022)\<close>. Numbers of the format are 53 binary digits
  long, so in that binade they are the multiples of \<open>ulp64 x\<close>.
\<close>

definition binade :: "real \<Rightarrow> int" where
  "binade x = max \<lfloor>log 2 \<bar>x\<bar>\<rfloor> (- 1022)"

definition ulp64 :: "real \<Rightarrow> real" where
  "ulp64 x = pow2 (binade x - 52)"

text \<open>
  Round to nearest, ties to even, with an unbounded exponent; then a result of
  magnitude \<open>2 ^ 1024\<close>, which is beyond the largest finite number, overflows to an
  infinity.
\<close>

definition nearest64 :: "real \<Rightarrow> real" where
  "nearest64 x = (if x = 0 then 0 else of_int (roundHalfEven (x / ulp64 x)) * ulp64 x)"

definition round64 :: "real \<Rightarrow> f64" where
  "round64 x =
     (let r = nearest64 x
      in if r \<ge> 2 ^ 1024 then PosInf else if r \<le> - (2 ^ 1024) then NegInf else Fin r)"

text \<open>The operations on numbers, case by case as IEEE 754 has them.\<close>

definition inf_of :: "bool \<Rightarrow> f64" where
  "inf_of positive = (if positive then PosInf else NegInf)"

fun neg64 :: "f64 \<Rightarrow> f64" where
  "neg64 (Fin a) = Fin (- a)"
| "neg64 PosInf = NegInf"
| "neg64 NegInf = PosInf"
| "neg64 NaN = NaN"

fun add64 :: "f64 \<Rightarrow> f64 \<Rightarrow> f64" where
  "add64 (Fin a) (Fin b) = round64 (a + b)"
| "add64 NaN b = NaN"
| "add64 a NaN = NaN"
| "add64 PosInf NegInf = NaN"
| "add64 NegInf PosInf = NaN"
| "add64 PosInf b = PosInf"
| "add64 a PosInf = PosInf"
| "add64 NegInf b = NegInf"
| "add64 a NegInf = NegInf"

definition sub64 :: "f64 \<Rightarrow> f64 \<Rightarrow> f64" where
  "sub64 a b = add64 a (neg64 b)"

fun mul64 :: "f64 \<Rightarrow> f64 \<Rightarrow> f64" where
  "mul64 (Fin a) (Fin b) = round64 (a * b)"
| "mul64 NaN b = NaN"
| "mul64 a NaN = NaN"
| "mul64 (Fin a) PosInf = (if a = 0 then NaN else inf_of (0 < a))"
| "mul64 (Fin a) NegInf = (if a = 0 then NaN else inf_of (a < 0))"
| "mul64 PosInf (Fin b) = (if b = 0 then NaN else inf_of (0 < b))"
| "mul64 NegInf (Fin b) = (if b = 0 then NaN else inf_of (b < 0))"
| "mul64 PosInf PosInf = PosInf"
| "mul64 PosInf NegInf = NegInf"
| "mul64 NegInf PosInf = NegInf"
| "mul64 NegInf NegInf = PosInf"

fun div64 :: "f64 \<Rightarrow> f64 \<Rightarrow> f64" where
  "div64 (Fin a) (Fin b) =
     (if b = 0 then (if a = 0 then NaN else inf_of (0 < a)) else round64 (a / b))"
| "div64 NaN b = NaN"
| "div64 a NaN = NaN"
| "div64 (Fin a) PosInf = Fin 0"
| "div64 (Fin a) NegInf = Fin 0"
| "div64 PosInf (Fin b) = inf_of (0 \<le> b)"
| "div64 NegInf (Fin b) = inf_of (b < 0)"
| "div64 PosInf PosInf = NaN"
| "div64 PosInf NegInf = NaN"
| "div64 NegInf PosInf = NaN"
| "div64 NegInf NegInf = NaN"

fun rem64 :: "f64 \<Rightarrow> f64 \<Rightarrow> f64" where
  "rem64 (Fin a) (Fin b) = (if b = 0 then NaN else Fin (js_rem a b))"
| "rem64 (Fin a) PosInf = Fin a"
| "rem64 (Fin a) NegInf = Fin a"
| "rem64 a b = NaN"

fun lt64 :: "f64 \<Rightarrow> f64 \<Rightarrow> bool" where
  "lt64 (Fin a) (Fin b) = (a < b)"
| "lt64 NaN b = False"
| "lt64 a NaN = False"
| "lt64 PosInf b = False"
| "lt64 a PosInf = True"
| "lt64 a NegInf = False"
| "lt64 NegInf b = True"

fun le64 :: "f64 \<Rightarrow> f64 \<Rightarrow> bool" where
  "le64 (Fin a) (Fin b) = (a \<le> b)"
| "le64 NaN b = False"
| "le64 a NaN = False"
| "le64 a PosInf = True"
| "le64 PosInf b = False"
| "le64 NegInf b = True"
| "le64 a NegInf = False"

definition gt64 :: "f64 \<Rightarrow> f64 \<Rightarrow> bool" where
  "gt64 a b = lt64 b a"

definition ge64 :: "f64 \<Rightarrow> f64 \<Rightarrow> bool" where
  "ge64 a b = le64 b a"

text \<open>A decimal literal of the source denotes the nearest binary64 number.\<close>

definition lit :: "real \<Rightarrow> f64" where
  "lit c = round64 c"

text \<open>\<^verbatim>\<open>Math.PI\<close> is the binary64 number nearest to \<open>pi\<close>, \<^verbatim>\<open>0x400921FB54442D18\<close>.\<close>

definition PI_f64 :: real where
  "PI_f64 = 884279719003555 / 2 ^ 48"

definition MATH_PI :: f64 where
  "MATH_PI = Fin PI_f64"

text \<open>
  \<^verbatim>\<open>Math.sin\<close> and \<^verbatim>\<open>Math.cos\<close> are approximations that the language standard leaves to
  the implementation; the functions that use them take them as a parameter. The
  standard fixes \<^verbatim>\<open>Math.sin(0) = 0\<close> and \<^verbatim>\<open>Math.cos(0) = 1\<close>.
\<close>

record MathLib =
  Math_sin :: "f64 \<Rightarrow> f64"
  Math_cos :: "f64 \<Rightarrow> f64"

text \<open>A library whose sine and cosine are rounded correctly, for concrete inputs.\<close>

definition roundedMath :: MathLib where
  "roundedMath =
     \<lparr>Math_sin = (\<lambda>v. case v of Fin a \<Rightarrow> round64 (sin a) | _ \<Rightarrow> NaN),
      Math_cos = (\<lambda>v. case v of Fin a \<Rightarrow> round64 (cos a) | _ \<Rightarrow> NaN)\<rparr>"

record WorldPoint_f64 =
  wp_x :: f64
  wp_y :: f64
  wp_z :: f64

record CameraPose_f64 =
  pose_x :: f64
  pose_y :: f64
  pose_z :: f64
  pose_yaw :: f64
  pose_pitch :: f64

record ProjectedPoint_f64 =
  screen_x :: f64
  screen_y :: f64
  screen_depth :: f64

subsection \<open>The functions in binary64 arithmetic\<close>

text \<open>
  Each function is the source function again, statement by statement, with the
  operators of the source replaced by the operations above and each decimal literal
  by the number it denotes. The coordinates and the terrain height of a tile are
  finite numbers.

  \<^verbatim>\<open>wrapAngle\<close>: the full turn is the product \<^verbatim>\<open>Math.PI * 2\<close>, the sum
  \<^verbatim>\<open>(value % full) + full\<close> is rounded, and the remainders are exact, as the
  remainder of two binary64 numbers always is.
\<close>

definition wrapAngle_f64 :: "f64 \<Rightarrow> f64" where
  "wrapAngle_f64 v =
     (let full = mul64 MATH_PI (lit 2);
          wrapped = rem64 (add64 (rem64 v full) full) full
      in if gt64 wrapped MATH_PI then sub64 wrapped full else wrapped)"

text \<open>The value \<^verbatim>\<open>distance\<close> that the scan computes for a tile.\<close>

definition distance_f64 :: "HexMapTile \<Rightarrow> f64 \<Rightarrow> f64 \<Rightarrow> f64" where
  "distance_f64 tile x z =
     (let dx = sub64 (Fin (tile_x tile)) x;
          dz = sub64 (Fin (tile_y tile)) z
      in add64 (mul64 dx dx) (mul64 dz dz))"

text \<open>
  The scan of \<^verbatim>\<open>findNearestTileIndex\<close>; \<^verbatim>\<open>nearestDistance\<close> starts as
  \<^verbatim>\<open>Number.POSITIVE_INFINITY\<close>.
\<close>

function findNearestTileIndex_f64_loop ::
  "HexMapTile list \<Rightarrow> f64 \<Rightarrow> f64 \<Rightarrow> nat \<Rightarrow> nat \<Rightarrow> f64 \<Rightarrow> nat" where
  "findNearestTileIndex_f64_loop tiles x z index nearestIndex nearestDistance =
     (if index < length tiles then
        (let tile = tiles ! index;
             dx = sub64 (Fin (tile_x tile)) x;
             dz = sub64 (Fin (tile_y tile)) z;
             distance = add64 (mul64 dx dx) (mul64 dz dz)
         in if lt64 distance nearestDistance
            then findNearestTileIndex_f64_loop tiles x z (index + 1) index distance
            else findNearestTileIndex_f64_loop tiles x z (index + 1) nearestIndex nearestDistance)
      else nearestIndex)"
  by pat_completeness auto
termination
  by (relation "measure (\<lambda>(tiles, x, z, index, nearestIndex, nearestDistance).
        length tiles - index)") auto

definition findNearestTileIndex_f64 :: "HexMapTile list \<Rightarrow> f64 \<Rightarrow> f64 \<Rightarrow> nat" where
  "findNearestTileIndex_f64 tiles x z =
     (if length tiles = 0 then 0
      else findNearestTileIndex_f64_loop tiles x z 0 0 PosInf)"

definition sampleGroundHeight_f64 :: "HexMapTile list \<Rightarrow> f64 \<Rightarrow> f64 \<Rightarrow> f64" where
  "sampleGroundHeight_f64 tiles x z =
     (let index = findNearestTileIndex_f64 tiles x z
      in if index < length tiles
         then mul64 (Fin (terrain_height (tile_terrain (tiles ! index)))) (lit HEIGHT_SCALE)
         else lit 0)"

text \<open>
  \<^verbatim>\<open>initialCamera\<close>: the two sums are accumulated tile by tile, each addition
  rounded, and then divided by \<^verbatim>\<open>tiles.length\<close>.
\<close>

definition initialCamera_f64 :: "HexMapTile list \<Rightarrow> CameraPose_f64" where
  "initialCamera_f64 tiles =
     (if length tiles = 0 then
        \<lparr>pose_x = lit 0, pose_y = lit HUMAN_EYE_HEIGHT, pose_z = lit 0, pose_yaw = lit 0,
         pose_pitch = neg64 (lit 0.35)\<rparr>
      else
        (let (sumX, sumZ) =
               foldl (\<lambda>(sumX, sumZ) tile.
                        (add64 sumX (Fin (tile_x tile)), add64 sumZ (Fin (tile_y tile))))
                 (lit 0, lit 0) tiles;
             x = div64 sumX (Fin (real (length tiles)));
             z = div64 sumZ (Fin (real (length tiles)));
             ground = sampleGroundHeight_f64 tiles x z
         in \<lparr>pose_x = x, pose_y = add64 ground (lit HUMAN_EYE_HEIGHT), pose_z = z,
              pose_yaw = mul64 (neg64 MATH_PI) (lit 0.12), pose_pitch = neg64 (lit 0.38)\<rparr>))"

text \<open>The depth \<^verbatim>\<open>zPitch\<close> that \<^verbatim>\<open>projectPoint\<close> computes and then tests.\<close>

definition depth_f64 :: "MathLib \<Rightarrow> WorldPoint_f64 \<Rightarrow> CameraPose_f64 \<Rightarrow> f64" where
  "depth_f64 M point camera =
     (let dx = sub64 (wp_x point) (pose_x camera);
          dy = sub64 (wp_y point) (pose_y camera);
          dz = sub64 (wp_z point) (pose_z camera);
          sinYaw = Math_sin M (pose_yaw camera);
          cosYaw = Math_cos M (pose_yaw camera);
          zYaw = add64 (mul64 sinYaw dx) (mul64 cosYaw dz);
          sinPitch = Math_sin M (pose_pitch camera);
          cosPitch = Math_cos M (pose_pitch camera)
      in add64 (mul64 sinPitch dy) (mul64 cosPitch zYaw))"

text \<open>\<^verbatim>\<open>projectPoint\<close>; the result \<^verbatim>\<open>null\<close> is \<open>None\<close>.\<close>

definition projectPoint_f64 ::
  "MathLib \<Rightarrow> WorldPoint_f64 \<Rightarrow> CameraPose_f64 \<Rightarrow> f64 \<Rightarrow> f64 \<Rightarrow> f64 \<Rightarrow>
   ProjectedPoint_f64 option" where
  "projectPoint_f64 M point camera viewportWidth viewportHeight focalLength =
     (let dx = sub64 (wp_x point) (pose_x camera);
          dy = sub64 (wp_y point) (pose_y camera);
          dz = sub64 (wp_z point) (pose_z camera);
          sinYaw = Math_sin M (pose_yaw camera);
          cosYaw = Math_cos M (pose_yaw camera);
          xYaw = sub64 (mul64 cosYaw dx) (mul64 sinYaw dz);
          zYaw = add64 (mul64 sinYaw dx) (mul64 cosYaw dz);
          sinPitch = Math_sin M (pose_pitch camera);
          cosPitch = Math_cos M (pose_pitch camera);
          yPitch = sub64 (mul64 cosPitch dy) (mul64 sinPitch zYaw);
          zPitch = add64 (mul64 sinPitch dy) (mul64 cosPitch zYaw)
      in if le64 zPitch (lit NEAR_PLANE) \<or> ge64 zPitch (lit FAR_PLANE) then None
         else Some \<lparr>screen_x = add64 (mul64 viewportWidth (lit 0.5))
                                  (mul64 (div64 xYaw zPitch) focalLength),
                     screen_y = sub64 (mul64 viewportHeight (lit 0.57))
                                  (mul64 (div64 yPitch zPitch) focalLength),
                     screen_depth = zPitch\<rparr>)"

subsection \<open>Notions used in the statements about binary64 results\<close>

text \<open>A result that is a number and not negative; a result that is finite.\<close>

definition nonneg64 :: "f64 \<Rightarrow> bool" where
  "nonneg64 n = (case n of Fin r \<Rightarrow> 0 \<le> r | PosInf \<Rightarrow> True | NegInf \<Rightarrow> False | NaN \<Rightarrow> False)"

definition finite64 :: "f64 \<Rightarrow> bool" where
  "finite64 n = (case n of Fin r \<Rightarrow> True | PosInf \<Rightarrow> False | NegInf \<Rightarrow> False | NaN \<Rightarrow> False)"

text \<open>A real that is a number of the format: rounding leaves it as it is.\<close>

definition representable :: "real \<Rightarrow> bool" where
  "representable r = (round64 r = Fin r)"

text \<open>
  The sum of a list of finite numbers as the loop of \<^verbatim>\<open>initialCamera\<close> accumulates
  it, from \<^verbatim>\<open>0\<close> and from the left.
\<close>

definition sum64 :: "real list \<Rightarrow> f64" where
  "sum64 xs = foldl add64 (lit 0) (map Fin xs)"

section \<open>Properties\<close>

subsection \<open>Angle wrapping and clamping\<close>

lemma js_rem_bounds:
  assumes "0 < b"
  shows "- b < js_rem a b" and "js_rem a b < b"
proof -
  have up: "of_int \<lceil>a / b\<rceil> < a / b + 1" and dn: "a / b - 1 < of_int \<lfloor>a / b\<rfloor>"
    and ce: "a / b \<le> of_int \<lceil>a / b\<rceil>" and fl: "of_int \<lfloor>a / b\<rfloor> \<le> a / b"
    by linarith+
  have ab: "b * (a / b) = a" using assms by simp
  show "- b < js_rem a b"
  proof (cases "a / b < 0")
    case True
    have "b * of_int \<lceil>a / b\<rceil> < b * (a / b + 1)"
      using up assms by (rule mult_strict_left_mono)
    then show ?thesis using True ab by (simp add: js_rem_def algebra_simps)
  next
    case False
    have "b * of_int \<lfloor>a / b\<rfloor> \<le> b * (a / b)"
      using fl assms by (intro mult_left_mono) auto
    then show ?thesis using False ab assms by (simp add: js_rem_def algebra_simps)
  qed
  show "js_rem a b < b"
  proof (cases "a / b < 0")
    case True
    have "b * (a / b) \<le> b * of_int \<lceil>a / b\<rceil>"
      using ce assms by (intro mult_left_mono) auto
    then show ?thesis using True ab assms by (simp add: js_rem_def algebra_simps)
  next
    case False
    have "b * (a / b - 1) < b * of_int \<lfloor>a / b\<rfloor>"
      using dn assms by (rule mult_strict_left_mono)
    then show ?thesis using False ab assms by (simp add: js_rem_def algebra_simps)
  qed
qed

lemma js_rem_nonneg:
  assumes "0 < b" and "0 \<le> a"
  shows "0 \<le> js_rem a b"
proof -
  have q: "\<not> a / b < 0" using assms by (simp add: not_less)
  have fl: "of_int \<lfloor>a / b\<rfloor> \<le> a / b" by linarith
  have ab: "b * (a / b) = a" using assms by simp
  have "b * of_int \<lfloor>a / b\<rfloor> \<le> b * (a / b)"
    using fl assms by (intro mult_left_mono) auto
  then show ?thesis using q ab by (simp add: js_rem_def)
qed

lemma wrapAngle_range: "- pi < wrapAngle v \<and> wrapAngle v \<le> pi"
proof -
  let ?full = "pi * 2"
  have fp: "0 < ?full" by simp
  have "- ?full < js_rem v ?full" using js_rem_bounds(1)[OF fp] .
  then have nn: "0 \<le> js_rem v ?full + ?full" by simp
  have lo: "0 \<le> js_rem (js_rem v ?full + ?full) ?full" using js_rem_nonneg[OF fp nn] .
  have hi: "js_rem (js_rem v ?full + ?full) ?full < ?full" using js_rem_bounds(2)[OF fp] .
  show ?thesis using lo hi pi_gt_zero by (simp add: wrapAngle_def Let_def)
qed

text \<open>An angle that is already in the canonical range is left as it is.\<close>

lemma js_rem_within:
  assumes "0 < b" and "- b < a" and "a < b"
  shows "js_rem a b = a"
proof (cases "a / b < 0")
  case True
  have "- 1 < a / b" using assms by (simp add: pos_less_divide_eq)
  then have "\<lceil>a / b\<rceil> = 0" using True by (intro ceiling_unique) simp_all
  then show ?thesis using True by (simp add: js_rem_def)
next
  case False
  have "a / b < 1" using assms by (simp add: pos_divide_less_eq)
  then have "\<lfloor>a / b\<rfloor> = 0" using False by (intro floor_unique) simp_all
  then show ?thesis using False by (simp add: js_rem_def)
qed

lemma js_rem_once:
  assumes "0 < b" and "b \<le> a" and "a < 2 * b"
  shows "js_rem a b = a - b"
proof -
  have q: "1 \<le> a / b" "a / b < 2" using assms by (simp_all add: pos_le_divide_eq pos_divide_less_eq)
  then have "\<lfloor>a / b\<rfloor> = 1" by (intro floor_unique) simp_all
  moreover have "\<not> a / b < 0" using q by simp
  ultimately show ?thesis by (simp add: js_rem_def)
qed

lemma wrapAngle_fixed:
  assumes "- pi < v" and "v \<le> pi"
  shows "wrapAngle v = v"
proof -
  have first: "js_rem v (pi * 2) = v" using assms by (intro js_rem_within) simp_all
  show ?thesis
  proof (cases "v < 0")
    case True
    have "js_rem (v + pi * 2) (pi * 2) = v + pi * 2"
      using assms True by (intro js_rem_within) simp_all
    then show ?thesis using assms True by (simp add: wrapAngle_def Let_def first)
  next
    case False
    have "js_rem (v + pi * 2) (pi * 2) = v + pi * 2 - pi * 2"
      using assms False by (intro js_rem_once) simp_all
    then show ?thesis using assms False by (simp add: wrapAngle_def Let_def first)
  qed
qed

lemma clamp_range: "lo \<le> hi \<Longrightarrow> lo \<le> clamp v lo hi \<and> clamp v lo hi \<le> hi"
  by (simp add: clamp_def)

subsection \<open>The per-frame camera update\<close>

lemma ls_camera_tick:
  "ls_camera (tick mode tiles keys now st) =
     (let deltaSeconds = min 0.05 ((now - ls_lastTime st) / 1000);
          moved = tick_move mode keys deltaSeconds (ls_camera st);
          ground = sampleGroundHeight tiles (cam_x moved) (cam_z moved);
          lifted = tick_height mode keys deltaSeconds ground moved
      in lifted\<lparr>cam_pitch := clamp (cam_pitch lifted) (- 1.2) 0.75,
                cam_yaw := wrapAngle (cam_yaw lifted)\<rparr>)"
  unfolding tick_def Let_def
  by (simp split del: if_split add: if_distrib[where f = ls_camera] cong: if_cong)

lemma tick_height_xz:
  "cam_x (tick_height mode keys dt ground c) = cam_x c"
  "cam_z (tick_height mode keys dt ground c) = cam_z c"
  by (simp_all add: tick_height_def Let_def)

lemma tick_height_walk: "cam_y (tick_height Walk keys dt ground c) = ground + HUMAN_EYE_HEIGHT"
  by (simp add: tick_height_def)

lemma tick_height_fly: "ground + 0.6 \<le> cam_y (tick_height Fly keys dt ground c)"
  by (simp add: tick_height_def Let_def)



lemma orientation_ok_tick: "orientation_ok (ls_camera (tick mode tiles keys now st))"
  using wrapAngle_range clamp_range [of "- 1.2" "0.75"]
  by (simp add: ls_camera_tick Let_def orientation_ok_def)

lemma orientation_ok_drag:
  assumes "drag_active drag" and "drag_pointerId drag = ev_pointerId event"
  shows "orientation_ok (snd (handlePointerMove event (drag, camera)))"
  using assms wrapAngle_range clamp_range [of "- 1.2" "0.75"]
  by (simp add: handlePointerMove_def Let_def orientation_ok_def)

lemma handlePointerMove_idle:
  assumes "\<not> (drag_active drag \<and> drag_pointerId drag = ev_pointerId event)"
  shows "handlePointerMove event (drag, camera) = (drag, camera)"
  using assms by (auto simp add: handlePointerMove_def Let_def)

text \<open>
  Claim C6. The orientation invariant (pitch between -1.2 and 0.75, yaw above \<open>- pi\<close>
  and at most \<open>pi\<close>) holds after every \<open>tick\<close>, from any state, and after every look
  update of \<open>handlePointerMove\<close>, that is whenever a drag of the event's pointer is
  active, from any camera pose and any pointer position. A pointer move outside such a
  drag updates nothing and leaves the pose as it was.
\<close>

theorem orientation_invariant:
  "orientation_ok (ls_camera (tick mode tiles keys now st)) \<and>
   (drag_active drag \<and> drag_pointerId drag = ev_pointerId event \<longrightarrow>
      orientation_ok (snd (handlePointerMove event (drag, camera)))) \<and>
   (\<not> (drag_active drag \<and> drag_pointerId drag = ev_pointerId event) \<longrightarrow>
      snd (handlePointerMove event (drag, camera)) = camera)"
  using orientation_ok_tick orientation_ok_drag handlePointerMove_idle by simp

theorem orientation_invariant_witness:
  "(let drag = \<lparr>drag_active = True, drag_pointerId = 1, drag_lastX = 10, drag_lastY = 20\<rparr>;
        event = \<lparr>ev_pointerId = 1, ev_clientX = 5000, ev_clientY = - 3000\<rparr>;
        idle = \<lparr>drag_active = False, drag_pointerId = - 1, drag_lastX = 10, drag_lastY = 20\<rparr>;
        camera = \<lparr>cam_x = 0, cam_y = 0, cam_z = 0, cam_yaw = 100, cam_pitch = 7\<rparr>
    in drag_active drag \<and> drag_pointerId drag = ev_pointerId event \<and>
       orientation_ok (snd (handlePointerMove event (drag, camera))) \<and>
       \<not> (drag_active idle \<and> drag_pointerId idle = ev_pointerId event) \<and>
       snd (handlePointerMove event (idle, camera)) = camera)"
  using orientation_invariant
    [of _ _ _ _ _
        "\<lparr>drag_active = True, drag_pointerId = 1, drag_lastX = 10, drag_lastY = 20\<rparr>"
        "\<lparr>ev_pointerId = 1, ev_clientX = 5000, ev_clientY = - 3000\<rparr>"
        "\<lparr>cam_x = 0, cam_y = 0, cam_z = 0, cam_yaw = 100, cam_pitch = 7\<rparr>"]
    orientation_invariant
    [of _ _ _ _ _
        "\<lparr>drag_active = False, drag_pointerId = - 1, drag_lastX = 10, drag_lastY = 20\<rparr>"
        "\<lparr>ev_pointerId = 1, ev_clientX = 5000, ev_clientY = - 3000\<rparr>"
        "\<lparr>cam_x = 0, cam_y = 0, cam_z = 0, cam_yaw = 100, cam_pitch = 7\<rparr>"]
  by simp

subsection \<open>Example tiles\<close>

lemma exampleTile_fields:
  "tile_x (exampleTile x y h) = x"
  "tile_y (exampleTile x y h) = y"
  "terrain_height (tile_terrain (exampleTile x y h)) = h"
  by (simp_all add: exampleTile_def)

declare findNearestTileIndex_loop.simps [simp del]

subsection \<open>The polygon string and the hexagon corners\<close>

declare hexCorners_loop.simps [simp del] hexPolygonPoints_loop.simps [simp del]

text \<open>The formatting on some inputs; a hexagon of size 0 is six times its centre.\<close>

lemma natToString_examples:
  "natToString 0 = ''0''" "natToString 7 = ''7''" "natToString 314 = ''314''"
  by (simp_all add: digitChar_def)

lemma toFixed_examples:
  "toFixed numberToString 3.14159 2 = ''3.14''"
  "toFixed numberToString (- 0.001) 2 = ''-0.00''"
  "toFixed numberToString 0.005 2 = ''0.01''"
  "toFixed numberToString (- 15.588) 2 = ''-15.59''"
  "toFixed numberToString 1234.5 2 = ''1234.50''"
  by (simp_all add: toFixed_def Let_def digitChar_def)

lemma hexPolygonPoints_point:
  "hexPolygonPoints numberToString 3 (- 1.5) 0 =
     ''3.00,-1.50 3.00,-1.50 3.00,-1.50 3.00,-1.50 3.00,-1.50 3.00,-1.50''"
  by (simp add: hexPolygonPoints_def hexPolygonPoints_loop.simps toFixed_def Let_def digitChar_def)

lemma hexPolygonPoints_loop_corners:
  "hexPolygonPoints_loop numberToString x y hsize i (map (cornerString numberToString) corners) =
     map (cornerString numberToString) (hexCorners_loop x y hsize i corners)"
proof (induction "6 - i" arbitrary: i corners)
  case 0
  then have "\<not> i < 6" by simp
  then show ?case
    by (subst hexPolygonPoints_loop.simps, subst hexCorners_loop.simps) simp
next
  case (Suc n)
  then have lt: "i < 6" and n: "n = 6 - (i + 1)" by simp_all
  let ?angle = "(pi / 180) * (60 * real i + 30)"
  let ?corner = "\<lparr>corner_x = x + hsize * cos ?angle, corner_z = y + hsize * sin ?angle\<rparr>"
  have "hexPolygonPoints_loop numberToString x y hsize i (map (cornerString numberToString) corners)
      = hexPolygonPoints_loop numberToString x y hsize (i + 1)
          (map (cornerString numberToString) (corners @ [?corner]))"
    using lt by (subst hexPolygonPoints_loop.simps) (simp add: Let_def cornerString_def)
  also have "\<dots> = map (cornerString numberToString)
                      (hexCorners_loop x y hsize (i + 1) (corners @ [?corner]))"
    using Suc.hyps(1)[OF n] .
  also have "hexCorners_loop x y hsize (i + 1) (corners @ [?corner])
             = hexCorners_loop x y hsize i corners"
    using lt by (subst (2) hexCorners_loop.simps) (simp add: Let_def)
  finally show ?case .
qed

text \<open>
  Claim C10. For every centre and size, the polygon string of \<open>hexPolygonPoints\<close> is
  the six vertices of \<open>hexCorners\<close> at the same centre and size, in the same order,
  each written as its two coordinates in fixed-point notation with two decimals and a
  comma between them, the vertices separated by single spaces.
\<close>

theorem hexPolygonPoints_formats_hexCorners:
  "hexPolygonPoints numberToString x y hsize =
     joinStrings '' ''
       (map (\<lambda>corner. toFixed numberToString (corner_x corner) 2 @ '','' @
                       toFixed numberToString (corner_z corner) 2)
            (hexCorners x y hsize))"
  using hexPolygonPoints_loop_corners [of numberToString x y hsize 0 "[]"]
  by (simp add: hexPolygonPoints_def hexCorners_def cornerString_def [abs_def])

subsection \<open>The draw queue\<close>

declare drawQueue_loop.simps [simp del]

lemma array_insert_mset: "mset (array_insert comparefn v xs) = add_mset v (mset xs)"
  by (induction xs) simp_all

lemma array_insert_descending:
  assumes "sorted_wrt (\<lambda>a b. key b \<le> key a) xs"
  shows "sorted_wrt (\<lambda>a b. key b \<le> key a) (array_insert (\<lambda>a b. key b - key a) v xs)"
  using assms
proof (induction xs)
  case Nil
  then show ?case by simp
next
  case (Cons w ws)
  have members: "set (array_insert (\<lambda>a b. key b - key a) v ws) = insert v (set ws)"
    using array_insert_mset [of "\<lambda>a b. key b - key a" v ws]
    by (metis set_mset_add_mset_insert set_mset_mset)
  show ?case
  proof (cases "key w - key v < 0")
    case True
    then show ?thesis using Cons.prems by fastforce
  next
    case False
    then show ?thesis using Cons members by auto
  qed
qed

lemma foldl_array_insert_descending:
  assumes "sorted_wrt (\<lambda>a b. key b \<le> key a) acc"
  shows "sorted_wrt (\<lambda>a b. key b \<le> key a)
           (foldl (\<lambda>sorted v. array_insert (\<lambda>a b. key b - key a) v sorted) acc xs)"
  using assms by (induction xs arbitrary: acc) (simp_all add: array_insert_descending)

lemma foldl_array_insert_mset:
  "mset (foldl (\<lambda>sorted v. array_insert comparefn v sorted) acc xs) = mset acc + mset xs"
  by (induction xs arbitrary: acc) (simp_all add: array_insert_mset)

lemma array_sort_descending:
  "sorted_wrt (\<lambda>a b. key b \<le> key a) (array_sort (\<lambda>a b. key b - key a) xs)"
  unfolding array_sort_def by (rule foldl_array_insert_descending) simp

lemma array_sort_mset: "mset (array_sort comparefn xs) = mset xs"
  by (simp add: array_sort_def foldl_array_insert_mset)

lemma projectCorners_total:
  assumes "projectCorners camera width height focalLength elevation corners projectedCorners
             depthTotal = Some (projectedCorners', depthTotal')"
  shows "\<exists>new. projectedCorners' = projectedCorners @ new \<and> length new = length corners \<and>
               depthTotal' = depthTotal + sum_list (map proj_depth new)"
  using assms
proof (induction corners arbitrary: projectedCorners depthTotal)
  case Nil
  then show ?case by simp
next
  case (Cons corner corners)
  then obtain projected where p:
    "projectPoint \<lparr>point_x = corner_x corner, point_y = elevation, point_z = corner_z corner\<rparr>
       camera width height focalLength = Some projected"
    and rest: "projectCorners camera width height focalLength elevation corners
       (projectedCorners @ [projected]) (depthTotal + proj_depth projected)
         = Some (projectedCorners', depthTotal')"
    by (auto split: option.splits)
  from Cons.IH[OF rest] obtain new where
    "projectedCorners' = (projectedCorners @ [projected]) @ new" "length new = length corners"
    "depthTotal' = depthTotal + proj_depth projected + sum_list (map proj_depth new)"
    by blast
  then have "projectedCorners' = projectedCorners @ (projected # new) \<and>
      length (projected # new) = length (corner # corners) \<and>
      depthTotal' = depthTotal + sum_list (map proj_depth (projected # new))"
    by simp
  then show ?case by blast
qed

lemma hexCorners_length: "length (hexCorners x y hsize) = 6"
  by (simp add: hexCorners_def hexCorners_loop.simps Let_def)

lemma tileDrawItem_average:
  assumes "tileDrawItem camera width height focalLength selectedIndex index tile = Some item"
  shows "averageDepth item"
proof -
  let ?elevation = "terrain_height (tile_terrain tile) * HEIGHT_SCALE"
  let ?corners = "hexCorners (tile_x tile) (tile_y tile) HEX_SIZE"
  from assms obtain projectedCorners depthTotal where
    pc: "projectCorners camera width height focalLength ?elevation ?corners [] 0
           = Some (projectedCorners, depthTotal)"
    and it: "item_path item = projectedCorners"
      "item_depth item = depthTotal / real (length projectedCorners)"
    by (auto simp add: tileDrawItem_def Let_def split: option.splits if_splits)
  from projectCorners_total[OF pc] have
    "length projectedCorners = 6" "depthTotal = sum_list (map proj_depth projectedCorners)"
    by (auto simp add: hexCorners_length)
  with it show ?thesis by (simp add: averageDepth_def)
qed

lemma drawQueue_loop_average:
  assumes "\<forall>item \<in> set drawQueue. averageDepth item"
  shows "\<forall>item \<in> set (drawQueue_loop tiles camera width height focalLength selectedIndex index
            drawQueue). averageDepth item"
  using assms
proof (induction "length tiles - index" arbitrary: index drawQueue)
  case 0
  then show ?case by (subst drawQueue_loop.simps) simp
next
  case (Suc n)
  then have lt: "index < length tiles" and n: "n = length tiles - (index + 1)" by simp_all
  show ?case
  proof (cases "tileDrawItem camera width height focalLength selectedIndex index (tiles ! index)")
    case None
    then show ?thesis
      using Suc.hyps(1)[OF n Suc.prems] lt by (subst drawQueue_loop.simps) simp
  next
    case (Some item)
    then have "\<forall>i \<in> set (drawQueue @ [item]). averageDepth i"
      using Suc.prems tileDrawItem_average by auto
    from Suc.hyps(1)[OF n this] show ?thesis
      using Some lt by (subst drawQueue_loop.simps) simp
  qed
qed


lemma hexCorners_list:
  "hexCorners x y hsize =
     map (\<lambda>angle. \<lparr>corner_x = x + hsize * cos angle, corner_z = y + hsize * sin angle\<rparr>)
       [pi / 6, pi / 2, 5 * pi / 6, 7 * pi / 6, 3 * pi / 2, 11 * pi / 6]"
  by (simp add: hexCorners_def hexCorners_loop.simps Let_def)

lemma hex_sines:
  "sin (pi / 6) = 1 / 2" "sin (5 * pi / 6) = 1 / 2" "sin (7 * pi / 6) = - (1 / 2)"
  "sin (3 * pi / 2) = - 1" "sin (11 * pi / 6) = - (1 / 2)"
proof -
  show "sin (pi / 6) = 1 / 2" by (rule sin_30)
  have "sin (5 * pi / 6) = sin (pi - pi / 6)" by simp
  then show "sin (5 * pi / 6) = 1 / 2" by (simp only: sin_pi_minus sin_30)
  have "sin (7 * pi / 6) = sin (pi / 6 + pi)" by simp
  then show "sin (7 * pi / 6) = - (1 / 2)" by (simp only: sin_periodic_pi sin_30)
  show "sin (3 * pi / 2) = - 1" using sin_3over2_pi by (simp add: mult.commute)
  have "sin (11 * pi / 6) = sin (2 * pi - pi / 6)" by simp
  then show "sin (11 * pi / 6) = - (1 / 2)" by (simp only: sin_2pi_minus sin_30)
qed

lemma projectPoint_neutral:
  assumes "cam_yaw camera = 0" and "cam_pitch camera = 0"
    and "NEAR_PLANE < point_z point - cam_z camera"
    and "point_z point - cam_z camera < FAR_PLANE"
  shows "\<exists>projected. projectPoint point camera width height focalLength = Some projected \<and>
           proj_depth projected = point_z point - cam_z camera"
  using assms by (simp add: projectPoint_def Let_def)

lemma projectCorners_neutral:
  assumes "cam_yaw camera = 0" and "cam_pitch camera = 0"
    and "\<forall>corner \<in> set corners. NEAR_PLANE < corner_z corner - cam_z camera \<and>
           corner_z corner - cam_z camera < FAR_PLANE"
  shows "\<exists>projectedCorners'.
           projectCorners camera width height focalLength elevation corners projectedCorners
             depthTotal =
           Some (projectedCorners',
                 depthTotal + sum_list (map (\<lambda>corner. corner_z corner - cam_z camera) corners))
           \<and> length projectedCorners' = length projectedCorners + length corners"
  using assms(3)
proof (induction corners arbitrary: projectedCorners depthTotal)
  case Nil
  then show ?case by simp
next
  case (Cons corner corners)
  let ?point = "\<lparr>point_x = corner_x corner, point_y = elevation, point_z = corner_z corner\<rparr>"
  have "NEAR_PLANE < point_z ?point - cam_z camera" "point_z ?point - cam_z camera < FAR_PLANE"
    using Cons.prems by simp_all
  from projectPoint_neutral[OF assms(1,2) this, of width height focalLength] obtain projected where
    p: "projectPoint ?point camera width height focalLength = Some projected"
      "proj_depth projected = corner_z corner - cam_z camera"
    by auto
  have "\<forall>c \<in> set corners. NEAR_PLANE < corner_z c - cam_z camera \<and>
          corner_z c - cam_z camera < FAR_PLANE"
    using Cons.prems by simp
  from Cons.IH[OF this, of "projectedCorners @ [projected]" "depthTotal + proj_depth projected"]
  show ?case using p by (auto simp add: add.assoc)
qed

lemma tileDrawItem_neutral:
  assumes "cam_yaw camera = 0" and "cam_pitch camera = 0"
    and "NEAR_PLANE + HEX_SIZE < tile_y tile - cam_z camera"
    and "tile_y tile - cam_z camera < FAR_PLANE - HEX_SIZE"
  shows "\<exists>item. tileDrawItem camera width height focalLength selectedIndex index tile = Some item
           \<and> item_depth item = tile_y tile - cam_z camera"
proof -
  let ?elevation = "terrain_height (tile_terrain tile) * HEIGHT_SCALE"
  let ?corners = "hexCorners (tile_x tile) (tile_y tile) HEX_SIZE"
  have inside: "\<forall>corner \<in> set ?corners. NEAR_PLANE < corner_z corner - cam_z camera \<and>
          corner_z corner - cam_z camera < FAR_PLANE"
    using assms(3,4) by (simp add: hexCorners_list hex_sines HEX_SIZE_def)
  have total: "sum_list (map (\<lambda>corner. corner_z corner - cam_z camera) ?corners)
       = 6 * (tile_y tile - cam_z camera)"
    by (simp add: hexCorners_list hex_sines)
  from projectCorners_neutral[OF assms(1,2) inside, of width height focalLength ?elevation "[]" 0]
  obtain projectedCorners where
    pc: "projectCorners camera width height focalLength ?elevation ?corners [] 0 =
           Some (projectedCorners, 6 * (tile_y tile - cam_z camera))"
    and len: "length projectedCorners = 6"
    using total by (auto simp add: hexCorners_length)
  have "projectedCorners \<noteq> []" using len by auto
  then show ?thesis
    by (simp add: tileDrawItem_def Let_def pc len)
qed

lemma example_scene_depths:
  "map item_depth (renderScene 800 600 [exampleTile 0 50 0, exampleTile 0 100 0] exampleCamera 0)
     = [100, 50]"
proof -
  define f :: real where "f = (600 * 0.86) / tan (FOV_RAD * 0.5)"
  have scene: "renderScene 800 600 [exampleTile 0 50 0, exampleTile 0 100 0] exampleCamera 0 =
      array_sort (\<lambda>a b. item_depth b - item_depth a)
        (drawQueue_loop [exampleTile 0 50 0, exampleTile 0 100 0] exampleCamera 800 600 f 0 0 [])"
    unfolding renderScene_def Let_def f_def by (rule refl)
  obtain near where near:
    "tileDrawItem exampleCamera 800 600 f 0 0 (exampleTile 0 50 0) = Some near"
    "item_depth near = 50"
    using tileDrawItem_neutral [of exampleCamera "exampleTile 0 50 0" 800 600 f 0 0]
    by (auto simp add: exampleCamera_def exampleTile_fields NEAR_PLANE_def FAR_PLANE_def
        HEX_SIZE_def)
  obtain far where far:
    "tileDrawItem exampleCamera 800 600 f 0 (Suc 0) (exampleTile 0 100 0) = Some far"
    "item_depth far = 100"
    using tileDrawItem_neutral [of exampleCamera "exampleTile 0 100 0" 800 600 f 0 "Suc 0"]
    by (auto simp add: exampleCamera_def exampleTile_fields NEAR_PLANE_def FAR_PLANE_def
        HEX_SIZE_def)
  have "drawQueue_loop [exampleTile 0 50 0, exampleTile 0 100 0] exampleCamera 800 600 f 0 0 []
          = [near, far]"
    by (simp add: drawQueue_loop.simps near far)
  then show ?thesis
    by (simp add: scene array_sort_def near far)
qed


subsection \<open>Two frames worked out\<close>

text \<open>
  A sprinting step forward in walk mode over 50 ms, from a pose far off the ground and
  with the pitch out of range; and a descending step to the right in fly mode over a
  stalled frame of one second, which is cut to 50 ms and stopped by the floor.
\<close>

lemma tick_walk_example:
  "ls_camera (tick Walk [exampleTile 0 0 (1 / 2)] {''KeyW'', ''ShiftLeft''} 1050
     \<lparr>ls_camera = \<lparr>cam_x = 0, cam_y = 99, cam_z = 0, cam_yaw = 0, cam_pitch = - 2\<rparr>,
      ls_lastTime = 1000, ls_hudAccumulator = 0, ls_selectedIndex = 0,
      ls_cameraHud = \<lparr>hud_pose = exampleCamera, hud_ground = 0\<rparr>\<rparr>) =
   \<lparr>cam_x = 0, cam_y = 14.72, cam_z = 1.85, cam_yaw = 0, cam_pitch = - 1.2\<rparr>"
proof -
  have g: "sampleGroundHeight [exampleTile 0 0 (1 / 2)] x z = 13" for x z
    by (simp add: sampleGroundHeight_def findNearestTileIndex_def
        findNearestTileIndex_loop.simps exampleTile_fields HEIGHT_SCALE_def)
  show ?thesis
    by (simp add: ls_camera_tick Let_def tick_move_def tick_height_def g wrapAngle_fixed
        clamp_def WALK_SPEED_def HUMAN_EYE_HEIGHT_def)
qed

lemma tick_fly_example:
  "ls_camera (tick Fly [exampleTile 0 0 (1 / 2)] {''KeyQ'', ''KeyD''} 2000
     \<lparr>ls_camera = \<lparr>cam_x = 0, cam_y = 14, cam_z = 0, cam_yaw = 0, cam_pitch = 0\<rparr>,
      ls_lastTime = 1000, ls_hudAccumulator = 0, ls_selectedIndex = 0,
      ls_cameraHud = \<lparr>hud_pose = exampleCamera, hud_ground = 0\<rparr>\<rparr>) =
   \<lparr>cam_x = 1.6, cam_y = 13.6, cam_z = 0, cam_yaw = 0, cam_pitch = 0\<rparr>"
proof -
  have g: "sampleGroundHeight [exampleTile 0 0 (1 / 2)] x z = 13" for x z
    by (simp add: sampleGroundHeight_def findNearestTileIndex_def
        findNearestTileIndex_loop.simps exampleTile_fields HEIGHT_SCALE_def)
  show ?thesis
    by (simp add: ls_camera_tick Let_def tick_move_def tick_height_def g wrapAngle_fixed
        clamp_def FLY_SPEED_def VERTICAL_FLY_SPEED_def)
qed

section \<open>Properties of the binary64 embedding\<close>

subsection \<open>Rounding\<close>

text \<open>
  Powers of two, the rounding to an integer, and the rounding to the format: numbers
  with at most 53 binary digits and an exponent in range are left as they are, and a
  real is rounded to the multiple of the unit of its binade that lies within half a
  unit of it.
\<close>

lemma pow2_pos [simp]: "0 < pow2 e"
  by (simp add: pow2_def)

lemma pow2_nonzero [simp]: "pow2 e \<noteq> 0"
  by (simp add: pow2_def)

lemma pow2_abs [simp]: "\<bar>pow2 e\<bar> = pow2 e"
  by (simp add: pow2_def)

lemma pow2_ge_zero [simp]: "0 \<le> pow2 e"
  by (simp add: pow2_def)

lemma pow2_not_le_zero [simp]: "\<not> pow2 e \<le> 0"
  by (simp add: pow2_def not_le)

lemma pow2_add: "pow2 (a + b) = pow2 a * pow2 b"
  by (simp add: pow2_def powr_add)

lemma pow2_nat: "pow2 (int n) = 2 ^ n"
  by (simp add: pow2_def powr_realpow)

lemma pow2_neg: "pow2 (- a) = 1 / pow2 a"
  by (simp add: pow2_def powr_minus field_simps)

lemma pow2_nonneg: "0 \<le> e \<Longrightarrow> pow2 e = 2 ^ nat e"
  using pow2_nat [of "nat e"] by simp

lemma pow2_mono: "a \<le> b \<Longrightarrow> pow2 a \<le> pow2 b"
  by (simp add: pow2_def)

lemma pow2_strict_mono: "a < b \<Longrightarrow> pow2 a < pow2 b"
  by (simp add: pow2_def)

lemma pow2_less_iff: "pow2 a < pow2 b \<longleftrightarrow> a < b"
  by (simp add: pow2_def)

lemma pow2_le_iff: "pow2 a \<le> pow2 b \<longleftrightarrow> a \<le> b"
  by (simp add: pow2_def)

lemma floor_log2_eq:
  assumes "pow2 E \<le> \<bar>x\<bar>" and "\<bar>x\<bar> < pow2 (E + 1)"
  shows "\<lfloor>log 2 \<bar>x\<bar>\<rfloor> = E"
proof -
  have "0 < \<bar>x\<bar>" using assms(1) pow2_pos [of E] by linarith
  then show ?thesis
    using assms by (simp add: floor_log_eq_powr_iff pow2_def)
qed

lemma floor_log2_bounds:
  assumes "x \<noteq> 0"
  shows "pow2 \<lfloor>log 2 \<bar>x\<bar>\<rfloor> \<le> \<bar>x\<bar>" and "\<bar>x\<bar> < pow2 (\<lfloor>log 2 \<bar>x\<bar>\<rfloor> + 1)"
proof -
  have pos: "0 < \<bar>x\<bar>" using assms by simp
  have "\<lfloor>log 2 \<bar>x\<bar>\<rfloor> = \<lfloor>log 2 \<bar>x\<bar>\<rfloor>" ..
  then have "2 powr of_int \<lfloor>log 2 \<bar>x\<bar>\<rfloor> \<le> \<bar>x\<bar> \<and> \<bar>x\<bar> < 2 powr (of_int \<lfloor>log 2 \<bar>x\<bar>\<rfloor> + 1)"
    using floor_log_eq_powr_iff [OF pos, of 2 "\<lfloor>log 2 \<bar>x\<bar>\<rfloor>"] by simp
  then show "pow2 \<lfloor>log 2 \<bar>x\<bar>\<rfloor> \<le> \<bar>x\<bar>" and "\<bar>x\<bar> < pow2 (\<lfloor>log 2 \<bar>x\<bar>\<rfloor> + 1)"
    by (simp_all add: pow2_def)
qed

lemma roundHalfEven_of_int [simp]: "roundHalfEven (of_int k) = k"
  by (simp add: roundHalfEven_def)

lemma roundHalfEven_near:
  assumes "\<bar>y - of_int n\<bar> < 1 / 2"
  shows "roundHalfEven y = n"
proof -
  consider "of_int n \<le> y" | "y < of_int n" by linarith
  then show ?thesis
  proof cases
    case 1
    then have "\<lfloor>y\<rfloor> = n" using assms by (intro floor_unique) (simp_all add: abs_if split: if_splits)
    then show ?thesis using assms 1 by (simp add: roundHalfEven_def Let_def abs_if split: if_splits)
  next
    case 2
    then have f: "\<lfloor>y\<rfloor> = n - 1" using assms by (intro floor_unique) (simp_all add: abs_if split: if_splits)
    have "y - of_int (n - 1) > 1 / 2" using assms 2 by (simp add: abs_if split: if_splits)
    then show ?thesis using f by (simp add: roundHalfEven_def Let_def)
  qed
qed

lemma roundHalfEven_ge: "of_int k \<le> y \<Longrightarrow> k \<le> roundHalfEven y"
proof -
  assume "of_int k \<le> y"
  then have "k \<le> \<lfloor>y\<rfloor>" by (simp add: le_floor_iff)
  moreover have "\<lfloor>y\<rfloor> \<le> roundHalfEven y" by (simp add: roundHalfEven_def Let_def)
  ultimately show ?thesis by simp
qed

lemma roundHalfEven_le: "y \<le> of_int k \<Longrightarrow> roundHalfEven y \<le> k"
proof -
  assume a: "y \<le> of_int k"
  show ?thesis
  proof (cases "y = of_int k")
    case True then show ?thesis by simp
  next
    case False
    then have "y < of_int k" using a by simp
    then have "\<lfloor>y\<rfloor> < k" by (simp add: floor_less_iff)
    moreover have "roundHalfEven y \<le> \<lfloor>y\<rfloor> + 1" by (simp add: roundHalfEven_def Let_def)
    ultimately show ?thesis by simp
  qed
qed

lemma binade_ge: "- 1022 \<le> binade x"
  by (simp add: binade_def)

lemma binade_eq:
  assumes "pow2 E \<le> \<bar>x\<bar>" and "\<bar>x\<bar> < pow2 (E + 1)" and "- 1022 \<le> E"
  shows "binade x = E"
  using floor_log2_eq [OF assms(1,2)] assms(3) by (simp add: binade_def)

lemma binade_upper:
  assumes "x \<noteq> 0"
  shows "\<bar>x\<bar> < pow2 (binade x + 1)"
proof -
  have "\<bar>x\<bar> < pow2 (\<lfloor>log 2 \<bar>x\<bar>\<rfloor> + 1)" using floor_log2_bounds(2) [OF assms] .
  also have "\<dots> \<le> pow2 (binade x + 1)" by (intro pow2_mono) (simp add: binade_def)
  finally show ?thesis .
qed

lemma binade_lower:
  assumes "x \<noteq> 0" and "binade x \<noteq> - 1022"
  shows "pow2 (binade x) \<le> \<bar>x\<bar>"
proof -
  have "binade x = \<lfloor>log 2 \<bar>x\<bar>\<rfloor>" using assms(2) by (simp add: binade_def max_def split: if_splits)
  then show ?thesis using floor_log2_bounds(1) [OF assms(1)] by simp
qed

lemma ulp64_pos [simp]: "0 < ulp64 x"
  by (simp add: ulp64_def)

lemma ulp64_ge_zero [simp]: "0 \<le> ulp64 x"
  by (simp add: ulp64_def)

lemma ulp64_nonzero [simp]: "ulp64 x \<noteq> 0"
  by (simp add: ulp64_def)

lemma ulp64_abs [simp]: "\<bar>ulp64 x\<bar> = ulp64 x"
  by (simp add: ulp64_def)

lemma nearest64_grid:
  assumes "x \<noteq> 0"
  shows "nearest64 x = of_int (roundHalfEven (x / ulp64 x)) * ulp64 x"
  using assms by (simp add: nearest64_def)

lemma quotient_upper:
  assumes "x \<noteq> 0"
  shows "\<bar>x / ulp64 x\<bar> < 2 ^ 53"
proof -
  have "\<bar>x\<bar> < pow2 (binade x + 1)" using binade_upper [OF assms] .
  also have "pow2 (binade x + 1) = pow2 53 * ulp64 x"
    unfolding ulp64_def pow2_add [symmetric] by (simp add: add.commute)
  finally have "\<bar>x\<bar> / ulp64 x < pow2 53" by (simp add: pos_divide_less_eq)
  then show ?thesis using pow2_nat [of 53] by (simp add: abs_divide)
qed

lemma quotient_lower:
  assumes "x \<noteq> 0" and "binade x \<noteq> - 1022"
  shows "2 ^ 52 \<le> \<bar>x / ulp64 x\<bar>"
proof -
  have "pow2 52 * ulp64 x = pow2 (binade x)"
    unfolding ulp64_def pow2_add [symmetric] by simp
  also have "\<dots> \<le> \<bar>x\<bar>" using binade_lower [OF assms] .
  finally have "pow2 52 \<le> \<bar>x\<bar> / ulp64 x" by (simp add: pos_le_divide_eq)
  then show ?thesis using pow2_nat [of 52] by (simp add: abs_divide)
qed

lemma roundHalfEven_abs_le:
  assumes "\<bar>y\<bar> \<le> of_int k"
  shows "\<bar>roundHalfEven y\<bar> \<le> k"
proof -
  have "y \<le> of_int k" and "of_int (- k) \<le> y" using assms by (simp_all add: abs_le_iff)
  then have "roundHalfEven y \<le> k" and "- k \<le> roundHalfEven y"
    using roundHalfEven_le roundHalfEven_ge by blast+
  then show ?thesis by simp
qed

lemma roundHalfEven_abs_ge:
  assumes "of_int k \<le> \<bar>y\<bar>" and "0 \<le> k"
  shows "k \<le> \<bar>roundHalfEven y\<bar>"
proof (cases "0 \<le> y")
  case True
  then have "of_int k \<le> y" using assms by simp
  then have "k \<le> roundHalfEven y" by (rule roundHalfEven_ge)
  then show ?thesis by simp
next
  case False
  then have "y \<le> of_int (- k)" using assms by simp
  then have "roundHalfEven y \<le> - k" by (rule roundHalfEven_le)
  then show ?thesis by simp
qed

lemma nearest64_dyadic:
  assumes "\<bar>m\<bar> < 2 ^ 53" and "- 1074 \<le> e"
  shows "nearest64 (of_int m * pow2 e) = of_int m * pow2 e"
proof (cases "m = 0")
  case True
  then show ?thesis by (simp add: nearest64_def)
next
  case False
  define x where "x = of_int m * pow2 e"
  have x0: "x \<noteq> 0" using False by (simp add: x_def)
  have low: "binade x - 52 \<le> e"
  proof (cases "binade x = - 1022")
    case True
    then show ?thesis using assms(2) by simp
  next
    case False
    have "pow2 (binade x) \<le> \<bar>x\<bar>" using binade_lower [OF x0 False] .
    also have "\<bar>x\<bar> = of_int \<bar>m\<bar> * pow2 e" by (simp add: x_def abs_mult)
    also have "\<dots> < 2 ^ 53 * pow2 e"
    proof -
      have "(of_int \<bar>m\<bar> :: real) < of_int (2 ^ 53)" using assms(1) by (simp only: of_int_less_iff)
      then show ?thesis by simp
    qed
    also have "\<dots> = pow2 (53 + e)" using pow2_nat [of 53] by (simp add: pow2_add)
    finally have "binade x < 53 + e" by (simp add: pow2_less_iff)
    then show ?thesis by simp
  qed
  define k where "k = nat (e - (binade x - 52))"
  have e: "e = int k + (binade x - 52)" using low by (simp add: k_def)
  have "pow2 e = 2 ^ k * ulp64 x"
    by (subst e, simp add: pow2_add pow2_nat ulp64_def)
  then have grid: "x = of_int (m * 2 ^ k) * ulp64 x" by (simp add: x_def)
  then have "x / ulp64 x = of_int (m * 2 ^ k) * ulp64 x / ulp64 x" by simp
  then have "x / ulp64 x = of_int (m * 2 ^ k)" by (simp only: nonzero_mult_div_cancel_right [OF ulp64_nonzero])
  then have "nearest64 x = of_int (m * 2 ^ k) * ulp64 x"
    using x0 by (simp only: nearest64_def roundHalfEven_of_int if_False)
  also have "\<dots> = x" using grid by simp
  finally show ?thesis by (simp add: x_def)
qed

lemma round64_dyadic:
  assumes "\<bar>m\<bar> < 2 ^ 53" and "- 1074 \<le> e" and "e \<le> 971"
  shows "round64 (of_int m * pow2 e) = Fin (of_int m * pow2 e)"
proof -
  have "\<bar>of_int m * pow2 e\<bar> = of_int \<bar>m\<bar> * pow2 e" by (simp add: abs_mult)
  also have "\<dots> \<le> of_int \<bar>m\<bar> * pow2 971"
    using assms(3) by (intro mult_left_mono pow2_mono) simp_all
  also have "\<dots> < 2 ^ 53 * pow2 971"
  proof -
    have "(of_int \<bar>m\<bar> :: real) < of_int (2 ^ 53)" using assms(1) by (simp only: of_int_less_iff)
    then show ?thesis by simp
  qed
  also have "\<dots> = 2 ^ 1024" using pow2_nat [of 971] by (simp flip: power_add)
  finally have "\<bar>of_int m * pow2 e\<bar> < 2 ^ 1024" .
  then show ?thesis
    using nearest64_dyadic [OF assms(1,2)] by (simp add: round64_def Let_def abs_less_iff)
qed

lemma round64_int:
  assumes "\<bar>k\<bar> < 2 ^ 53"
  shows "round64 (of_int k) = Fin (of_int k)"
  using round64_dyadic [OF assms, of 0] by (simp add: pow2_def)

lemma round64_fraction:
  assumes "\<bar>m\<bar> < 2 ^ 53" and "n \<le> 1074"
  shows "round64 (of_int m / 2 ^ n) = Fin (of_int m / 2 ^ n)"
proof -
  have "pow2 (- int n) = 1 / 2 ^ n" by (simp add: pow2_neg pow2_nat)
  then show ?thesis
    using round64_dyadic [OF assms(1), of "- int n"] assms(2) by simp
qed

lemma round64_zero [simp]: "round64 0 = Fin 0"
  by (simp add: round64_def nearest64_def)

lemma nearest64_shape:
  assumes "x \<noteq> 0"
  shows "\<exists>n. nearest64 x = of_int n * pow2 (binade x - 52) \<and> \<bar>n\<bar> \<le> 2 ^ 53 \<and>
             (binade x = - 1022 \<or> 2 ^ 52 \<le> \<bar>n\<bar>)"
proof -
  let ?n = "roundHalfEven (x / ulp64 x)"
  have a: "nearest64 x = of_int ?n * pow2 (binade x - 52)"
    using assms by (simp add: nearest64_def ulp64_def)
  have "\<bar>x / ulp64 x\<bar> \<le> of_int (2 ^ 53)" using quotient_upper [OF assms] by simp
  then have b: "\<bar>?n\<bar> \<le> 2 ^ 53" by (rule roundHalfEven_abs_le)
  have c: "2 ^ 52 \<le> \<bar>?n\<bar>" if "binade x \<noteq> - 1022"
  proof -
    have "of_int (2 ^ 52) \<le> \<bar>x / ulp64 x\<bar>" using quotient_lower [OF assms that] by simp
    then show ?thesis by (rule roundHalfEven_abs_ge) simp
  qed
  show ?thesis using a b c by blast
qed

lemma round64_idem:
  assumes "round64 x = Fin d"
  shows "round64 d = Fin d"
proof (cases "x = 0")
  case True
  then show ?thesis using assms by auto
next
  case False
  have d: "d = nearest64 x" and small: "\<bar>d\<bar> < 2 ^ 1024"
    using assms by (auto simp add: round64_def Let_def split: if_splits)
  from nearest64_shape [OF False] obtain n where
    n: "d = of_int n * pow2 (binade x - 52)" "\<bar>n\<bar> \<le> 2 ^ 53"
      "binade x = - 1022 \<or> 2 ^ 52 \<le> \<bar>n\<bar>"
    unfolding d by blast
  have top: "binade x - 52 \<le> 971" if "2 ^ 52 \<le> \<bar>n\<bar>"
  proof -
    have "pow2 52 * pow2 (binade x - 52) \<le> of_int \<bar>n\<bar> * pow2 (binade x - 52)"
    proof (intro mult_right_mono)
      have "(of_int (2 ^ 52) :: real) \<le> of_int \<bar>n\<bar>" using that by (simp only: of_int_le_iff)
      then show "pow2 52 \<le> of_int \<bar>n\<bar>" using pow2_nat [of 52] by simp
    qed simp
    also have "\<dots> = \<bar>d\<bar>" by (simp add: n(1) abs_mult)
    also have "\<dots> < pow2 1024" using small pow2_nat [of 1024] by simp
    finally have "pow2 (52 + (binade x - 52)) < pow2 1024" by (simp only: pow2_add)
    then show ?thesis by (simp add: pow2_less_iff)
  qed
  have low: "- 1074 \<le> binade x - 52" using binade_ge [of x] by simp
  show ?thesis
  proof (cases "\<bar>n\<bar> < 2 ^ 53")
    case True
    have "binade x - 52 \<le> 971" using n(3) top by auto
    from round64_dyadic [OF True low this] show ?thesis by (simp add: n(1))
  next
    case False
    then have full: "\<bar>n\<bar> = 2 ^ 53" using n(2) by simp
    then have "2 ^ 52 \<le> \<bar>n\<bar>" by simp
    have "pow2 53 * pow2 (binade x - 52) = \<bar>d\<bar>"
      using full pow2_nat [of 53] by (simp add: n(1) abs_mult)
    then have "pow2 53 * pow2 (binade x - 52) < pow2 1024"
      using small pow2_nat [of 1024] by simp
    then have "pow2 (53 + (binade x - 52)) < pow2 1024" by (simp only: pow2_add)
    then have e: "binade x - 51 \<le> 971" by (simp add: pow2_less_iff)
    have "n = 2 ^ 53 \<or> n = - (2 ^ 53)" using full by (simp add: abs_if split: if_splits)
    then obtain s :: int where s: "n = s * 2" "\<bar>s\<bar> < 2 ^ 53" by auto
    have "pow2 (binade x - 51) = 2 * pow2 (binade x - 52)"
      using pow2_add [of 1 "binade x - 52"] pow2_nat [of 1] by (simp add: algebra_simps)
    then have "d = of_int s * pow2 (binade x - 51)" by (simp add: n(1) s(1))
    moreover have "- 1074 \<le> binade x - 51" using low by simp
    ultimately show ?thesis using round64_dyadic [OF s(2) _ e] by simp
  qed
qed

lemma nearest64_nonneg: "0 \<le> x \<Longrightarrow> 0 \<le> nearest64 x"
proof -
  assume "0 \<le> x"
  then have "of_int 0 \<le> x / ulp64 x" by simp
  then have "0 \<le> roundHalfEven (x / ulp64 x)" by (rule roundHalfEven_ge)
  then show ?thesis by (simp add: nearest64_def)
qed

lemma nearest64_nonpos: "x \<le> 0 \<Longrightarrow> nearest64 x \<le> 0"
proof -
  assume "x \<le> 0"
  then have "x / ulp64 x \<le> of_int 0" by (simp add: divide_nonpos_pos)
  then have "roundHalfEven (x / ulp64 x) \<le> 0" by (rule roundHalfEven_le)
  then have "of_int (roundHalfEven (x / ulp64 x)) * ulp64 x \<le> 0"
    by (intro mult_nonpos_nonneg) simp_all
  then show ?thesis by (simp add: nearest64_def)
qed

lemma nearest64_eval:
  assumes "pow2 E \<le> \<bar>x\<bar>" and "\<bar>x\<bar> < pow2 (E + 1)" and "- 1022 \<le> E"
    and "\<bar>x / pow2 (E - 52) - of_int n\<bar> < 1 / 2"
  shows "nearest64 x = of_int n * pow2 (E - 52)"
proof -
  have x0: "x \<noteq> 0" using assms(1) by auto
  have b: "binade x = E" using binade_eq [OF assms(1,2,3)] .
  have "roundHalfEven (x / ulp64 x) = n"
    using assms(4) by (intro roundHalfEven_near) (simp add: ulp64_def b)
  then show ?thesis using x0 by (simp add: nearest64_def ulp64_def b)
qed

lemma round64_eval:
  assumes "pow2 E \<le> \<bar>x\<bar>" and "\<bar>x\<bar> < pow2 (E + 1)" and "- 1022 \<le> E"
    and "\<bar>x / pow2 (E - 52) - of_int n\<bar> < 1 / 2"
    and "\<bar>of_int n * pow2 (E - 52)\<bar> < 2 ^ 1024"
  shows "round64 x = Fin (of_int n * pow2 (E - 52))"
  using nearest64_eval [OF assms(1-4)] assms(5)
  by (simp add: round64_def Let_def abs_less_iff)

lemma pow2_numeral_simps:
  "pow2 0 = 1" "pow2 (numeral k) = 2 ^ numeral k" "pow2 (- numeral k) = 1 / 2 ^ numeral k"
  "pow2 1 = 2" "pow2 (- 1) = 1 / 2"
proof -
  show "pow2 0 = 1" by (simp add: pow2_def)
  show "pow2 (numeral k) = 2 ^ numeral k" using pow2_nat [of "numeral k"] by simp
  then show "pow2 (- numeral k) = 1 / 2 ^ numeral k" by (simp add: pow2_neg)
  show "pow2 1 = 2" using pow2_nat [of 1] by simp
  then show "pow2 (- 1) = 1 / 2" by (simp add: pow2_neg)
qed

text \<open>Beyond the largest finite number the rounding overflows.\<close>

lemma round64_overflow:
  assumes "\<bar>m\<bar> < 2 ^ 53" and "0 < m" and "1024 \<le> e"
  shows "round64 (of_int m * pow2 e) = PosInf"
proof -
  have n: "nearest64 (of_int m * pow2 e) = of_int m * pow2 e"
    using assms by (intro nearest64_dyadic) simp_all
  have "pow2 1024 \<le> pow2 e" using assms(3) by (simp add: pow2_le_iff)
  also have "\<dots> = 1 * pow2 e" by simp
  also have "\<dots> \<le> of_int m * pow2 e" using assms(2) by (intro mult_right_mono) simp_all
  finally have "(2 :: real) ^ 1024 \<le> of_int m * pow2 e" by (simp add: pow2_numeral_simps)
  then show ?thesis by (simp add: round64_def Let_def n)
qed

text \<open>A sum that falls between two numbers of the format goes to the nearer one.\<close>

lemma round64_above_one: "round64 (1 + 1 / 2 ^ 60) = Fin 1"
proof -
  have "round64 (1 + 1 / 2 ^ 60) = Fin (of_int (2 ^ 52) * pow2 (0 - 52))"
    by (rule round64_eval) (simp_all add: pow2_numeral_simps)
  then show ?thesis by (simp add: pow2_numeral_simps)
qed

subsection \<open>Angle wrapping in binary64\<close>

lemma lit_values:
  "lit 0 = Fin 0" "lit 2 = Fin 2" "lit NEAR_PLANE = Fin (1 / 2)" "lit FAR_PLANE = Fin 1100"
  "lit HEIGHT_SCALE = Fin 26" "lit 0.5 = Fin (1 / 2)"
  using round64_int [of 2] round64_int [of 1100] round64_int [of 26] round64_fraction [of 1 1]
  by (simp_all add: lit_def NEAR_PLANE_def FAR_PLANE_def HEIGHT_SCALE_def)

lemma PI_f64_bounds: "3 < PI_f64" "PI_f64 < 4"
  by (simp_all add: PI_f64_def)

lemma full_turn: "mul64 MATH_PI (lit 2) = Fin (2 * PI_f64)"
proof -
  have e: "2 * PI_f64 = of_int 884279719003555 / 2 ^ 47" by (simp add: PI_f64_def)
  have "round64 (2 * PI_f64) = Fin (2 * PI_f64)"
    unfolding e by (rule round64_fraction) simp_all
  then show ?thesis by (simp add: MATH_PI_def lit_values mult.commute)
qed

lemma nearest64_abs_le:
  assumes "x \<noteq> 0"
  shows "\<bar>nearest64 x\<bar> \<le> pow2 (binade x + 1)"
proof -
  from nearest64_shape [OF assms] obtain n where
    n: "nearest64 x = of_int n * pow2 (binade x - 52)" "\<bar>n\<bar> \<le> 2 ^ 53" by blast
  have "\<bar>nearest64 x\<bar> = of_int \<bar>n\<bar> * pow2 (binade x - 52)" by (simp add: n(1) abs_mult)
  also have "\<dots> \<le> pow2 53 * pow2 (binade x - 52)"
  proof (intro mult_right_mono)
    have "(of_int \<bar>n\<bar> :: real) \<le> of_int (2 ^ 53)" using n(2) by (simp only: of_int_le_iff)
    then show "of_int \<bar>n\<bar> \<le> pow2 53" using pow2_nat [of 53] by simp
  qed simp
  also have "\<dots> = pow2 (binade x + 1)" by (simp add: pow2_add [symmetric] add.commute)
  finally show ?thesis .
qed

lemma binade_le:
  assumes "x \<noteq> 0" and "\<bar>x\<bar> < pow2 (E + 1)" and "- 1022 \<le> E"
  shows "binade x \<le> E"
proof -
  have "pow2 \<lfloor>log 2 \<bar>x\<bar>\<rfloor> \<le> \<bar>x\<bar>" using floor_log2_bounds(1) [OF assms(1)] .
  then have "pow2 \<lfloor>log 2 \<bar>x\<bar>\<rfloor> < pow2 (E + 1)" using assms(2) by simp
  then have "\<lfloor>log 2 \<bar>x\<bar>\<rfloor> \<le> E" by (simp add: pow2_less_iff)
  then show ?thesis using assms(3) by (simp add: binade_def)
qed

lemma round64_small:
  assumes "\<bar>x\<bar> < 16"
  shows "round64 x = Fin (nearest64 x)"
proof (cases "x = 0")
  case True then show ?thesis by (simp add: nearest64_def)
next
  case False
  have "\<bar>x\<bar> < pow2 (3 + 1)" using assms pow2_nat [of 4] by simp
  then have "binade x \<le> 3" using False by (intro binade_le) simp_all
  then have "pow2 (binade x + 1) \<le> pow2 4" by (intro pow2_mono) simp
  then have "\<bar>nearest64 x\<bar> \<le> 16" using nearest64_abs_le [OF False] pow2_nat [of 4] by simp
  then show ?thesis by (simp add: round64_def Let_def abs_le_iff)
qed

lemma nearest64_above_minus_pi:
  assumes "- PI_f64 \<le> x" and "x < 0"
  shows "- PI_f64 \<le> nearest64 x"
proof -
  have x0: "x \<noteq> 0" using assms by simp
  have "\<bar>x\<bar> < pow2 (1 + 1)" using assms PI_f64_bounds pow2_nat [of 2] by simp
  then have b: "binade x \<le> 1" using x0 by (intro binade_le) simp_all
  define k where "k = nat (1 - binade x)"
  have "pow2 (- 51) = pow2 (int k + (binade x - 52))" using b by (simp add: k_def)
  then have c: "pow2 (- 51) = 2 ^ k * ulp64 x" by (simp only: pow2_add pow2_nat ulp64_def)
  have "PI_f64 = 7074237752028440 * pow2 (- 51)"
    using pow2_nat [of 51] by (simp add: pow2_neg PI_f64_def)
  then have "PI_f64 = 7074237752028440 * (2 ^ k * ulp64 x)" by (simp only: c)
  then have g: "- PI_f64 = of_int (- (7074237752028440 * 2 ^ k)) * ulp64 x" by simp
  define K :: int where "K = - (7074237752028440 * 2 ^ k)"
  have gK: "- PI_f64 = of_int K * ulp64 x" using g by (simp only: K_def)
  have "of_int K * ulp64 x \<le> x" using assms(1) by (simp only: gK)
  then have "of_int K \<le> x / ulp64 x" by (simp add: pos_le_divide_eq)
  then have "K \<le> roundHalfEven (x / ulp64 x)" by (rule roundHalfEven_ge)
  then have "(of_int K :: real) \<le> of_int (roundHalfEven (x / ulp64 x))"
    by (simp only: of_int_le_iff)
  then have "of_int K * ulp64 x \<le> of_int (roundHalfEven (x / ulp64 x)) * ulp64 x"
    by (intro mult_right_mono) simp_all
  then show ?thesis using x0 by (simp only: gK nearest64_def if_False)
qed

lemma wrapAngle_f64_bounds:
  "\<exists>w. wrapAngle_f64 (Fin v) = Fin w \<and> - PI_f64 \<le> w \<and> w \<le> PI_f64"
proof -
  let ?F = "2 * PI_f64"
  have Fpos: "0 < ?F" and F8: "?F < 8" using PI_f64_bounds by simp_all
  define r where "r = js_rem v ?F"
  have r: "- ?F < r" "r < ?F" using js_rem_bounds [OF Fpos] by (simp_all add: r_def)
  define s where "s = nearest64 (r + ?F)"
  have "\<bar>r + ?F\<bar> < 16" using r F8 by simp
  then have s: "round64 (r + ?F) = Fin s" by (simp add: s_def round64_small)
  have s0: "0 \<le> s" unfolding s_def using r by (intro nearest64_nonneg) simp
  define w where "w = js_rem s ?F"
  have w: "0 \<le> w" "w < ?F"
    using js_rem_nonneg [OF Fpos s0] js_rem_bounds(2) [OF Fpos] by (simp_all add: w_def)
  have Fne: "?F \<noteq> 0" using Fpos by simp
  have "rem64 (Fin v) (Fin ?F) = Fin r" using Fne by (simp add: r_def)
  then have "add64 (rem64 (Fin v) (Fin ?F)) (Fin ?F) = Fin s" using s by simp
  then have wrapped: "rem64 (add64 (rem64 (Fin v) (Fin ?F)) (Fin ?F)) (Fin ?F) = Fin w"
    using Fne by (simp add: w_def)
  have unfold: "wrapAngle_f64 (Fin v) =
      (if gt64 (Fin w) MATH_PI then sub64 (Fin w) (Fin ?F) else Fin w)"
    unfolding wrapAngle_f64_def Let_def full_turn wrapped ..
  show ?thesis
  proof (cases "PI_f64 < w")
    case False
    then have "wrapAngle_f64 (Fin v) = Fin w"
      unfolding unfold by (simp add: gt64_def MATH_PI_def)
    then show ?thesis using w False PI_f64_bounds by auto
  next
    case True
    have y: "- PI_f64 \<le> w - ?F" "w - ?F < 0" using True w by simp_all
    have "\<bar>w - ?F\<bar> < 16" using y PI_f64_bounds by simp
    then have "round64 (w - ?F) = Fin (nearest64 (w - ?F))" by (rule round64_small)
    then have "sub64 (Fin w) (Fin ?F) = Fin (nearest64 (w - ?F))"
      by (simp add: sub64_def)
    then have "wrapAngle_f64 (Fin v) = Fin (nearest64 (w - ?F))"
      unfolding unfold using True by (simp add: gt64_def MATH_PI_def)
    moreover have "- PI_f64 \<le> nearest64 (w - ?F)" using nearest64_above_minus_pi [OF y] .
    moreover have "nearest64 (w - ?F) \<le> 0" using y by (intro nearest64_nonpos) simp
    ultimately show ?thesis using PI_f64_bounds by auto
  qed
qed

lemma arctan_partial_sums:
  assumes "0 \<le> x" and "x \<le> 1"
  shows "(\<Sum>k<2 * n. (- 1) ^ k * (1 / real (k * 2 + 1) * x ^ (k * 2 + 1))) \<le> arctan x"
    and "arctan x \<le> (\<Sum>k<2 * n + 1. (- 1) ^ k * (1 / real (k * 2 + 1) * x ^ (k * 2 + 1)))"
proof -
  let ?a = "\<lambda>k. 1 / real (k * 2 + 1) * x ^ (k * 2 + 1)"
  have ax: "\<bar>x\<bar> \<le> 1" using assms by simp
  have zero: "?a \<longlonglongrightarrow> 0" using zeroseq_arctan_series [OF ax] .
  have pos: "0 \<le> ?a k" for k using assms by simp
  have step: "?a (Suc k) \<le> ?a k" for k
  proof -
    have "x ^ (Suc k * 2 + 1) \<le> x ^ (k * 2 + 1)"
      using assms by (intro power_decreasing) simp_all
    moreover have "1 / real (Suc k * 2 + 1) \<le> 1 / real (k * 2 + 1)"
      by (intro divide_left_mono) simp_all
    ultimately show ?thesis
      using assms by (intro mult_mono) simp_all
  qed
  have series: "arctan x = (\<Sum>k. (- 1) ^ k * ?a k)" using arctan_series [OF ax] .
  show "(\<Sum>k<2 * n. (- 1) ^ k * ?a k) \<le> arctan x"
    unfolding series using summable_Leibniz'(2) [of ?a, OF zero pos step] .
  show "arctan x \<le> (\<Sum>k<2 * n + 1. (- 1) ^ k * ?a k)"
    unfolding series using summable_Leibniz'(4) [of ?a, OF zero pos step] .
qed

lemma MATH_PI_less_pi: "PI_f64 < pi"
proof -
  have pi: "pi = 16 * arctan (1 / 5) - 4 * arctan (1 / 239)" using machin by simp
  have lo: "(\<Sum>k<2 * 6. (- 1) ^ k * (1 / real (k * 2 + 1) * (1 / 5) ^ (k * 2 + 1))) \<le> arctan (1 / 5)"
    by (rule arctan_partial_sums(1)) simp_all
  have hi: "arctan (1 / 239) \<le> (\<Sum>k<2 * 1 + 1. (- 1) ^ k * (1 / real (k * 2 + 1) * (1 / 239) ^ (k * 2 + 1)))"
    by (rule arctan_partial_sums(2)) simp_all
  show ?thesis
    unfolding pi PI_f64_def using lo hi by (simp add: eval_nat_numeral)
qed


text \<open>
  The angle \<open>- (1 / 2 ^ 60)\<close> is wrapped to 0: the sum \<^verbatim>\<open>(value % full) + full\<close>
  rounds to \<^verbatim>\<open>full\<close>. No whole multiple of \<open>2 * pi\<close> lies between the two.
\<close>

lemma js_rem_self: "b \<noteq> 0 \<Longrightarrow> js_rem b b = 0"
  by (simp add: js_rem_def)

lemma wrapAngle_f64_tiny: "wrapAngle_f64 (Fin (- (1 / 2 ^ 60))) = Fin 0"
proof -
  let ?F = "2 * PI_f64"
  let ?v = "- (1 / 2 ^ 60) :: real"
  have Fpos: "0 < ?F" using PI_f64_bounds by simp
  have "js_rem ?v ?F = ?v" using PI_f64_bounds by (intro js_rem_within) simp_all
  then have a: "rem64 (Fin ?v) (Fin ?F) = Fin ?v" using Fpos by simp
  have "round64 (?v + ?F) = Fin (of_int 7074237752028440 * pow2 (2 - 52))"
    by (rule round64_eval) (simp_all add: PI_f64_def pow2_numeral_simps)
  also have "of_int 7074237752028440 * pow2 (2 - 52) = ?F"
    by (simp add: PI_f64_def pow2_numeral_simps)
  finally have b: "add64 (Fin ?v) (Fin ?F) = Fin ?F" by simp
  have c: "rem64 (Fin ?F) (Fin ?F) = Fin 0" using Fpos by (simp add: js_rem_self)
  have "wrapAngle_f64 (Fin ?v) = (if gt64 (Fin 0) MATH_PI then sub64 (Fin 0) (Fin ?F) else Fin 0)"
    unfolding wrapAngle_f64_def Let_def full_turn a b c ..
  then show ?thesis using PI_f64_bounds by (simp add: gt64_def MATH_PI_def)
qed


text \<open>\<^verbatim>\<open>wrapAngle(-Math.PI)\<close> is \<^verbatim>\<open>Math.PI\<close>.\<close>

lemma wrapAngle_f64_minus_pi: "wrapAngle_f64 (neg64 MATH_PI) = MATH_PI"
proof -
  let ?F = "2 * PI_f64"
  have Fpos: "0 < ?F" using PI_f64_bounds by simp
  have "js_rem (- PI_f64) ?F = - PI_f64" using PI_f64_bounds by (intro js_rem_within) simp_all
  then have a: "rem64 (Fin (- PI_f64)) (Fin ?F) = Fin (- PI_f64)" using Fpos by simp
  have e: "PI_f64 = of_int 884279719003555 / 2 ^ 48" by (simp add: PI_f64_def)
  have "round64 PI_f64 = Fin PI_f64" unfolding e by (rule round64_fraction) simp_all
  then have b: "add64 (Fin (- PI_f64)) (Fin ?F) = Fin PI_f64" by simp
  have "js_rem PI_f64 ?F = PI_f64" using PI_f64_bounds by (intro js_rem_within) simp_all
  then have c: "rem64 (Fin PI_f64) (Fin ?F) = Fin PI_f64" using Fpos by simp
  have "wrapAngle_f64 (Fin (- PI_f64)) =
      (if gt64 (Fin PI_f64) MATH_PI then sub64 (Fin PI_f64) (Fin ?F) else Fin PI_f64)"
    unfolding wrapAngle_f64_def Let_def full_turn a b c ..
  then show ?thesis by (simp add: gt64_def MATH_PI_def)
qed

subsection \<open>Nearest tile in binary64\<close>

declare findNearestTileIndex_f64_loop.simps [simp del]

lemma round64_not_NaN [simp]: "round64 x \<noteq> NaN"
  by (simp add: round64_def Let_def)

lemma nonneg64_simps [simp]:
  "nonneg64 (Fin r) = (0 \<le> r)" "nonneg64 PosInf" "\<not> nonneg64 NegInf" "\<not> nonneg64 NaN"
  by (simp_all add: nonneg64_def)

lemma round64_nonneg: "0 \<le> x \<Longrightarrow> nonneg64 (round64 x)"
  using nearest64_nonneg [of x] by (simp add: round64_def Let_def)

lemma sub64_not_NaN: "b \<noteq> NaN \<Longrightarrow> sub64 (Fin a) b \<noteq> NaN"
  by (cases b) (simp_all add: sub64_def)

lemma square64_nonneg: "a \<noteq> NaN \<Longrightarrow> nonneg64 (mul64 a a)"
  by (cases a) (simp_all add: round64_nonneg)

lemma add64_nonneg: "nonneg64 a \<Longrightarrow> nonneg64 b \<Longrightarrow> nonneg64 (add64 a b)"
  by (cases a; cases b) (simp_all add: round64_nonneg)

lemma distance_f64_nonneg:
  assumes "x \<noteq> NaN" and "z \<noteq> NaN"
  shows "nonneg64 (distance_f64 tile x z)"
  unfolding distance_f64_def Let_def
  by (intro add64_nonneg square64_nonneg sub64_not_NaN assms)

lemma nonneg64_order:
  assumes "nonneg64 a" and "nonneg64 b"
  shows "\<not> lt64 a b \<Longrightarrow> le64 b a" and "lt64 a b \<Longrightarrow> le64 a b" and "le64 a a"
  using assms by (cases a; cases b; simp)+

lemma nonneg64_trans:
  assumes "nonneg64 a" and "nonneg64 b" and "nonneg64 c"
  shows "lt64 a b \<Longrightarrow> le64 b c \<Longrightarrow> lt64 a c" and "le64 a b \<Longrightarrow> le64 b c \<Longrightarrow> le64 a c"
  using assms by (cases a; cases b; cases c; simp)+

lemma nonneg64_below_infinity:
  assumes "nonneg64 a" and "\<not> lt64 a PosInf"
  shows "a = PosInf"
  using assms by (cases a) simp_all

lemma findNearestTileIndex_f64_loop_step:
  assumes "index < length tiles"
  shows "findNearestTileIndex_f64_loop tiles x z index nearestIndex nearestDistance =
           (if lt64 (distance_f64 (tiles ! index) x z) nearestDistance
            then findNearestTileIndex_f64_loop tiles x z (index + 1) index
                   (distance_f64 (tiles ! index) x z)
            else findNearestTileIndex_f64_loop tiles x z (index + 1) nearestIndex nearestDistance)"
  using assms
  by (subst findNearestTileIndex_f64_loop.simps) (simp add: Let_def distance_f64_def)

lemma findNearestTileIndex_f64_loop_done:
  assumes "\<not> index < length tiles"
  shows "findNearestTileIndex_f64_loop tiles x z index nearestIndex nearestDistance = nearestIndex"
  using assms by (subst findNearestTileIndex_f64_loop.simps) simp

lemma findNearestTileIndex_f64_loop_minimal:
  assumes "x \<noteq> NaN" and "z \<noteq> NaN"
    and "nearestIndex < index" and "index \<le> length tiles"
    and "\<forall>j<index. le64 (distance_f64 (tiles ! nearestIndex) x z) (distance_f64 (tiles ! j) x z)"
    and "\<forall>j<nearestIndex. lt64 (distance_f64 (tiles ! nearestIndex) x z) (distance_f64 (tiles ! j) x z)"
  shows "(let r = findNearestTileIndex_f64_loop tiles x z index nearestIndex
                    (distance_f64 (tiles ! nearestIndex) x z)
          in r < length tiles
             \<and> (\<forall>j<length tiles. le64 (distance_f64 (tiles ! r) x z) (distance_f64 (tiles ! j) x z))
             \<and> (\<forall>j<r. lt64 (distance_f64 (tiles ! r) x z) (distance_f64 (tiles ! j) x z)))"
  using assms(3-6)
proof (induction "length tiles - index" arbitrary: index nearestIndex)
  case 0
  then have "index = length tiles" by simp
  with 0 show ?case by (simp add: findNearestTileIndex_f64_loop_done)
next
  case (Suc n)
  then have lt: "index < length tiles" by simp
  let ?d = "\<lambda>j. distance_f64 (tiles ! j) x z"
  have nn: "nonneg64 (?d j)" for j using distance_f64_nonneg [OF assms(1,2)] .
  have a: "n = length tiles - (index + 1)" using Suc.hyps(2) by simp
  show ?case
  proof (cases "lt64 (?d index) (?d nearestIndex)")
    case True
    have b: "index < index + 1" "index + 1 \<le> length tiles" using lt by simp_all
    have below: "lt64 (?d index) (?d j)" if "j < index" for j
      using nonneg64_trans(1) [OF nn nn nn True] Suc.prems(3) that by blast
    have c: "\<forall>j<index + 1. le64 (?d index) (?d j)"
    proof (intro allI impI)
      fix j assume "j < index + 1"
      then consider "j < index" | "j = index" by linarith
      then show "le64 (?d index) (?d j)"
      proof cases
        case 1 then show ?thesis using below nonneg64_order(2) [OF nn nn] by blast
      next
        case 2 then show ?thesis using nonneg64_order(3) [OF nn nn] by simp
      qed
    qed
    have d: "\<forall>j<index. lt64 (?d index) (?d j)" using below by blast
    show ?thesis
      using Suc.hyps(1)[OF a b c d] True lt
      by (simp add: findNearestTileIndex_f64_loop_step)
  next
    case False
    have b: "nearestIndex < index + 1" "index + 1 \<le> length tiles"
      using lt Suc.prems(1) by simp_all
    have c: "\<forall>j<index + 1. le64 (?d nearestIndex) (?d j)"
    proof (intro allI impI)
      fix j assume "j < index + 1"
      then consider "j < index" | "j = index" by linarith
      then show "le64 (?d nearestIndex) (?d j)"
      proof cases
        case 1 then show ?thesis using Suc.prems(3) by simp
      next
        case 2 then show ?thesis using False nonneg64_order(1) [OF nn nn] by simp
      qed
    qed
    show ?thesis
      using Suc.hyps(1)[OF a b c Suc.prems(4)] False lt
      by (simp add: findNearestTileIndex_f64_loop_step)
  qed
qed

lemma findNearestTileIndex_f64_first:
  assumes "x \<noteq> NaN" and "z \<noteq> NaN" and "tiles \<noteq> []"
  shows "findNearestTileIndex_f64 tiles x z =
           findNearestTileIndex_f64_loop tiles x z 1 0 (distance_f64 (tiles ! 0) x z)"
proof -
  have pos: "0 < length tiles" using assms(3) by simp
  have nn: "nonneg64 (distance_f64 (tiles ! 0) x z)" using distance_f64_nonneg [OF assms(1,2)] .
  show ?thesis
  proof (cases "lt64 (distance_f64 (tiles ! 0) x z) PosInf")
    case True
    then show ?thesis
      using assms(3) pos by (simp add: findNearestTileIndex_f64_def findNearestTileIndex_f64_loop_step)
  next
    case False
    then have "distance_f64 (tiles ! 0) x z = PosInf" using nn nonneg64_below_infinity by blast
    then show ?thesis
      using assms(3) pos False
      by (simp add: findNearestTileIndex_f64_def findNearestTileIndex_f64_loop_step)
  qed
qed

text \<open>
  Claim C7. On the empty tile list \<^verbatim>\<open>findNearestTileIndex\<close> returns 0. On any other
  list, for a query point neither of whose coordinates is \<^verbatim>\<open>NaN\<close>, it returns an
  index of the list such that the distance the scan computes for its tile (the
  rounded sum of the rounded squares of the rounded coordinate differences) is the
  least of the distances computed for the tiles, and the distance computed for every
  tile at a lower index is strictly greater: of the tiles at the least computed
  distance it is the first. The statement is about the computed distances; the
  exact squared distance of the returned tile need not be the least, as the example
  after the theorem shows.
\<close>

theorem findNearestTileIndex_f64_correct:
  "(tiles = [] \<longrightarrow> findNearestTileIndex_f64 tiles x z = 0) \<and>
   (tiles \<noteq> [] \<and> x \<noteq> NaN \<and> z \<noteq> NaN \<longrightarrow>
      findNearestTileIndex_f64 tiles x z < length tiles \<and>
      (\<forall>j<length tiles. le64 (distance_f64 (tiles ! findNearestTileIndex_f64 tiles x z) x z)
                          (distance_f64 (tiles ! j) x z)) \<and>
      (\<forall>j<findNearestTileIndex_f64 tiles x z.
          lt64 (distance_f64 (tiles ! findNearestTileIndex_f64 tiles x z) x z)
               (distance_f64 (tiles ! j) x z)))"
proof (intro conjI impI)
  show "findNearestTileIndex_f64 tiles x z = 0" if "tiles = []"
    using that by (simp add: findNearestTileIndex_f64_def)
next
  assume a: "tiles \<noteq> [] \<and> x \<noteq> NaN \<and> z \<noteq> NaN"
  then have x: "x \<noteq> NaN" and z: "z \<noteq> NaN" and t: "tiles \<noteq> []" by simp_all
  have one: "Suc 0 \<le> length tiles" using t by (cases tiles) simp_all
  have nn: "nonneg64 (distance_f64 (tiles ! j) x z)" for j using distance_f64_nonneg [OF x z] .
  have "let r = findNearestTileIndex_f64_loop tiles x z 1 0 (distance_f64 (tiles ! 0) x z)
        in r < length tiles
           \<and> (\<forall>j<length tiles. le64 (distance_f64 (tiles ! r) x z) (distance_f64 (tiles ! j) x z))
           \<and> (\<forall>j<r. lt64 (distance_f64 (tiles ! r) x z) (distance_f64 (tiles ! j) x z))"
    by (rule findNearestTileIndex_f64_loop_minimal [OF x z])
      (use one nonneg64_order(3) [OF nn nn] in simp_all)
  then show "findNearestTileIndex_f64 tiles x z < length tiles"
    and "\<forall>j<length tiles. le64 (distance_f64 (tiles ! findNearestTileIndex_f64 tiles x z) x z)
                          (distance_f64 (tiles ! j) x z)"
    and "\<forall>j<findNearestTileIndex_f64 tiles x z.
          lt64 (distance_f64 (tiles ! findNearestTileIndex_f64 tiles x z) x z)
               (distance_f64 (tiles ! j) x z)"
    by (simp_all add: findNearestTileIndex_f64_first [OF x z t] Let_def)
qed

lemma round64_numeral [simp]:
  "(numeral n :: int) < 2 ^ 53 \<Longrightarrow> round64 (numeral n) = Fin (numeral n)"
  "(numeral n :: int) < 2 ^ 53 \<Longrightarrow> round64 (- numeral n) = Fin (- numeral n)"
  "round64 1 = Fin 1" "round64 (- 1) = Fin (- 1)"
  using round64_int [of "numeral n"] round64_int [of "- numeral n"] round64_int [of 1]
    round64_int [of "- 1"]
  by simp_all

text \<open>
  For the tiles at \<open>(1, 1 / 2 ^ 30)\<close> and \<open>(- 1, 0)\<close> and the query point \<open>(0, 0)\<close> both
  computed distances are 1, so the scan keeps index 0; the tile at index 1 is nearer.
\<close>

lemma distance_f64_examples:
  "distance_f64 (exampleTile 1 (1 / 2 ^ 30) 0) (Fin 0) (Fin 0) = Fin 1"
  "distance_f64 (exampleTile (- 1) 0 0) (Fin 0) (Fin 0) = Fin 1"
proof -
  note a = round64_fraction [of 1 30, simplified]
  note b = round64_fraction [of 1 60, simplified]
  note c' = round64_above_one [simplified]
  show "distance_f64 (exampleTile 1 (1 / 2 ^ 30) 0) (Fin 0) (Fin 0) = Fin 1"
    by (simp add: distance_f64_def Let_def exampleTile_fields sub64_def a b c')
  show "distance_f64 (exampleTile (- 1) 0 0) (Fin 0) (Fin 0) = Fin 1"
    by (simp add: distance_f64_def Let_def exampleTile_fields sub64_def)
qed

theorem findNearestTileIndex_f64_not_nearest:
  "(let tiles = [exampleTile 1 (1 / 2 ^ 30) 0, exampleTile (- 1) 0 0]
    in findNearestTileIndex_f64 tiles (Fin 0) (Fin 0) = 0 \<and>
       squaredDistance (tiles ! 1) 0 0 < squaredDistance (tiles ! 0) 0 0)"
proof -
  let ?tiles = "[exampleTile 1 (1 / 2 ^ 30) 0, exampleTile (- 1) 0 0]"
  have "findNearestTileIndex_f64 ?tiles (Fin 0) (Fin 0) = 0"
    by (simp add: findNearestTileIndex_f64_def findNearestTileIndex_f64_loop_step
        findNearestTileIndex_f64_loop_done distance_f64_examples [simplified])
  then show ?thesis
    by (simp add: Let_def squaredDistance_def exampleTile_fields)
qed

theorem findNearestTileIndex_f64_correct_witness:
  "([] :: HexMapTile list) = [] \<and> findNearestTileIndex_f64 [] (Fin 1) (Fin 0) = 0 \<and>
   (let tiles = [exampleTile 5 5 0, exampleTile 2 0 0, exampleTile 0 0 0, exampleTile 1 1 0]
    in tiles \<noteq> [] \<and> Fin 1 \<noteq> NaN \<and> Fin 0 \<noteq> NaN \<and>
       findNearestTileIndex_f64 tiles (Fin 1) (Fin 0) = 1 \<and>
       findNearestTileIndex_f64 tiles (Fin 1) (Fin 0) < length tiles \<and>
       (2 < length tiles \<and>
        le64 (distance_f64 (tiles ! findNearestTileIndex_f64 tiles (Fin 1) (Fin 0)) (Fin 1) (Fin 0))
             (distance_f64 (tiles ! 2) (Fin 1) (Fin 0))) \<and>
       (0 < findNearestTileIndex_f64 tiles (Fin 1) (Fin 0) \<and>
        lt64 (distance_f64 (tiles ! findNearestTileIndex_f64 tiles (Fin 1) (Fin 0)) (Fin 1) (Fin 0))
             (distance_f64 (tiles ! 0) (Fin 1) (Fin 0))))"
proof -
  let ?tiles = "[exampleTile 5 5 0, exampleTile 2 0 0, exampleTile 0 0 0, exampleTile 1 1 0]"
  have d: "distance_f64 (exampleTile 5 5 0) (Fin 1) (Fin 0) = Fin 41"
    "distance_f64 (exampleTile 2 0 0) (Fin 1) (Fin 0) = Fin 1"
    "distance_f64 (exampleTile 0 0 0) (Fin 1) (Fin 0) = Fin 1"
    "distance_f64 (exampleTile 1 1 0) (Fin 1) (Fin 0) = Fin 1"
    by (simp_all add: distance_f64_def Let_def exampleTile_fields sub64_def)
  have r: "findNearestTileIndex_f64 ?tiles (Fin 1) (Fin 0) = 1"
    by (simp add: findNearestTileIndex_f64_def findNearestTileIndex_f64_loop_step
        findNearestTileIndex_f64_loop_done d)
  show ?thesis
    using findNearestTileIndex_f64_correct [of "[]" "Fin 1" "Fin 0"]
      findNearestTileIndex_f64_correct [of ?tiles "Fin 1" "Fin 0"]
    by (simp add: r d)
qed

text \<open>
  For the tiles at \<open>(2 ^ 600, 0)\<close> and \<open>(2 ^ 550, 0)\<close> the squares overflow: both
  computed distances are infinite, none is below the initial
  \<^verbatim>\<open>Number.POSITIVE_INFINITY\<close>, and the scan returns its initial index 0.
\<close>

lemma distance_f64_overflow:
  "distance_f64 (exampleTile (2 ^ 600) 0 0) (Fin 0) (Fin 0) = PosInf"
  "distance_f64 (exampleTile (2 ^ 550) 0 0) (Fin 0) (Fin 0) = PosInf"
proof -
  have a: "round64 (2 ^ 600) = Fin (2 ^ 600)" "round64 (2 ^ 550) = Fin (2 ^ 550)"
    using round64_dyadic [of 1 600] round64_dyadic [of 1 550] by (simp_all add: pow2_numeral_simps)
  have b: "round64 (2 ^ 600 * 2 ^ 600) = PosInf" "round64 (2 ^ 550 * 2 ^ 550) = PosInf"
    using round64_overflow [of 1 1200] round64_overflow [of 1 1100]
    by (simp_all add: pow2_numeral_simps flip: power_add)
  show "distance_f64 (exampleTile (2 ^ 600) 0 0) (Fin 0) (Fin 0) = PosInf"
    "distance_f64 (exampleTile (2 ^ 550) 0 0) (Fin 0) (Fin 0) = PosInf"
    by (simp_all add: distance_f64_def Let_def exampleTile_fields sub64_def a [simplified]
        b [simplified])
qed

lemma findNearestTileIndex_f64_overflow:
  "findNearestTileIndex_f64 [exampleTile (2 ^ 600) 0 0, exampleTile (2 ^ 550) 0 0]
     (Fin 0) (Fin 0) = 0"
  by (simp add: findNearestTileIndex_f64_def findNearestTileIndex_f64_loop_step
        findNearestTileIndex_f64_loop_done distance_f64_overflow [simplified])

subsection \<open>Initial camera in binary64\<close>

lemma foldl_sums_f64:
  "foldl (\<lambda>(sumX, sumZ) tile. (add64 sumX (Fin (tile_x tile)), add64 sumZ (Fin (tile_y tile))))
     (a, b) tiles =
   (foldl add64 a (map Fin (map tile_x tiles)), foldl add64 b (map Fin (map tile_y tiles)))"
  by (induction tiles arbitrary: a b) simp_all

lemma foldl_add64_exact:
  assumes "\<forall>k\<le>length xs. representable (a + sum_list (take k xs))"
  shows "foldl add64 (Fin a) (map Fin xs) = Fin (a + sum_list xs)"
  using assms
proof (induction xs arbitrary: a)
  case Nil
  then show ?case by simp
next
  case (Cons x xs)
  have "representable (a + sum_list (take 1 (x # xs)))" using Cons.prems by (simp del: take_Suc_Cons)
  then have first: "round64 (a + x) = Fin (a + x)" by (simp add: representable_def)
  have "\<forall>k\<le>length xs. representable ((a + x) + sum_list (take k xs))"
  proof (intro allI impI)
    fix k assume "k \<le> length xs"
    then have "representable (a + sum_list (take (Suc k) (x # xs)))" using Cons.prems by auto
    then show "representable ((a + x) + sum_list (take k xs))" by (simp add: add.assoc)
  qed
  from Cons.IH [OF this] show ?case by (simp add: first add.assoc)
qed

lemma sum64_exact:
  assumes "\<forall>k\<le>length xs. representable (sum_list (take k xs))"
  shows "sum64 xs = Fin (sum_list xs)"
  using foldl_add64_exact [of xs 0] assms by (simp add: sum64_def lit_values)

text \<open>
  Claim C9. For the empty tile list the initial camera is the fixed default: the
  origin at eye height, yaw 0, pitch -0.35. For any other list its \<open>x\<close> and \<open>z\<close> are
  the sums of the tiles' two coordinates, accumulated from the left with every
  addition rounded, divided by the number of tiles; its height is the ground height
  sampled there plus the eye height, its yaw is \<^verbatim>\<open>-Math.PI * 0.12\<close> and its pitch
  -0.38. Its \<open>x\<close> (its \<open>z\<close>) is the arithmetic mean of the tiles' \<open>x\<close> (\<open>y\<close>)
  coordinates whenever every partial sum and the mean are numbers of the format. In
  general it is not the mean, as the example after the theorem shows.
\<close>

theorem initialCamera_f64_centroid:
  "(tiles = [] \<longrightarrow>
      initialCamera_f64 tiles =
        \<lparr>pose_x = lit 0, pose_y = lit HUMAN_EYE_HEIGHT, pose_z = lit 0, pose_yaw = lit 0,
         pose_pitch = neg64 (lit 0.35)\<rparr>) \<and>
   (tiles \<noteq> [] \<longrightarrow>
      (let x = div64 (sum64 (map tile_x tiles)) (Fin (real (length tiles)));
           z = div64 (sum64 (map tile_y tiles)) (Fin (real (length tiles)))
       in initialCamera_f64 tiles =
            \<lparr>pose_x = x, pose_y = add64 (sampleGroundHeight_f64 tiles x z) (lit HUMAN_EYE_HEIGHT),
             pose_z = z, pose_yaw = mul64 (neg64 MATH_PI) (lit 0.12),
             pose_pitch = neg64 (lit 0.38)\<rparr>)) \<and>
   (tiles \<noteq> [] \<and> (\<forall>k\<le>length tiles. representable (sum_list (take k (map tile_x tiles)))) \<and>
      representable (sum_list (map tile_x tiles) / real (length tiles)) \<longrightarrow>
      pose_x (initialCamera_f64 tiles) = Fin (sum_list (map tile_x tiles) / real (length tiles))) \<and>
   (tiles \<noteq> [] \<and> (\<forall>k\<le>length tiles. representable (sum_list (take k (map tile_y tiles)))) \<and>
      representable (sum_list (map tile_y tiles) / real (length tiles)) \<longrightarrow>
      pose_z (initialCamera_f64 tiles) = Fin (sum_list (map tile_y tiles) / real (length tiles)))"
proof -
  have shape: "initialCamera_f64 tiles =
      (let x = div64 (sum64 (map tile_x tiles)) (Fin (real (length tiles)));
           z = div64 (sum64 (map tile_y tiles)) (Fin (real (length tiles)))
       in \<lparr>pose_x = x, pose_y = add64 (sampleGroundHeight_f64 tiles x z) (lit HUMAN_EYE_HEIGHT),
             pose_z = z, pose_yaw = mul64 (neg64 MATH_PI) (lit 0.12),
             pose_pitch = neg64 (lit 0.38)\<rparr>)" if "tiles \<noteq> []"
    using that by (simp add: initialCamera_f64_def foldl_sums_f64 Let_def sum64_def)
  have exact: "div64 (sum64 xs) (Fin (real (length tiles))) = Fin (sum_list xs / real (length tiles))"
    if "tiles \<noteq> []" "\<forall>k\<le>length xs. representable (sum_list (take k xs))"
      "representable (sum_list xs / real (length tiles))" for xs
    using that sum64_exact [of xs] by (simp add: representable_def)
  show ?thesis
    using shape exact [of "map tile_x tiles"] exact [of "map tile_y tiles"]
    by (simp add: initialCamera_f64_def Let_def)
qed

text \<open>
  For tiles with the \<open>x\<close> coordinates 1, \<open>1 / 2 ^ 60\<close>, \<open>1 / 2 ^ 60\<close> and 0 the accumulated
  sum is 1 and the camera's \<open>x\<close> is \<open>1 / 4\<close>, which is not the mean.
\<close>

lemma initialCamera_f64_x:
  assumes "tiles \<noteq> []"
  shows "pose_x (initialCamera_f64 tiles) =
           div64 (sum64 (map tile_x tiles)) (Fin (real (length tiles)))"
  using assms by (simp add: initialCamera_f64_def foldl_sums_f64 Let_def sum64_def)

theorem initialCamera_f64_not_centroid:
  "(let tiles = [exampleTile 1 0 0, exampleTile (1 / 2 ^ 60) 0 0, exampleTile (1 / 2 ^ 60) 0 0,
                 exampleTile 0 0 0]
    in pose_x (initialCamera_f64 tiles) = Fin (1 / 4) \<and>
       sum_list (map tile_x tiles) / real (length tiles) \<noteq> 1 / 4)"
proof -
  let ?tiles = "[exampleTile 1 0 0, exampleTile (1 / 2 ^ 60) 0 0, exampleTile (1 / 2 ^ 60) 0 0,
                 exampleTile 0 0 0]"
  note up = round64_above_one [simplified]
  note quarter = round64_fraction [of 1 2, simplified]
  have "sum64 (map tile_x ?tiles) = Fin 1"
    by (simp add: sum64_def lit_values exampleTile_fields up)
  then have "pose_x (initialCamera_f64 ?tiles) = Fin (1 / 4)"
    by (simp add: initialCamera_f64_x quarter)
  then show ?thesis by (simp add: Let_def exampleTile_fields)
qed

theorem initialCamera_f64_centroid_witness:
  "(let tiles = [exampleTile 0 0 (1 / 2), exampleTile 27 (- 3) 1, exampleTile 3 9 (1 / 4)]
    in ([] :: HexMapTile list) = [] \<and>
       initialCamera_f64 [] =
         \<lparr>pose_x = lit 0, pose_y = lit HUMAN_EYE_HEIGHT, pose_z = lit 0, pose_yaw = lit 0,
          pose_pitch = neg64 (lit 0.35)\<rparr> \<and>
       tiles \<noteq> [] \<and>
       representable 0 \<and> representable 27 \<and> representable 30 \<and> representable 10 \<and>
       representable (- 3) \<and> representable 6 \<and> representable 2 \<and>
       sampleGroundHeight_f64 tiles (Fin 10) (Fin 2) = Fin (13 / 2) \<and>
       initialCamera_f64 tiles =
         \<lparr>pose_x = Fin 10, pose_y = add64 (Fin (13 / 2)) (lit HUMAN_EYE_HEIGHT), pose_z = Fin 2,
          pose_yaw = mul64 (neg64 MATH_PI) (lit 0.12), pose_pitch = neg64 (lit 0.38)\<rparr>)"
proof -
  let ?tiles = "[exampleTile 0 0 (1 / 2), exampleTile 27 (- 3) 1, exampleTile 3 9 (1 / 4)]"
  have rep: "representable 0" "representable 27" "representable 30" "representable 10"
    "representable (- 3)" "representable 6" "representable 2"
    by (simp_all add: representable_def)
  have xs: "\<forall>k\<le>length ?tiles. representable (sum_list (take k (map tile_x ?tiles)))"
    using rep by (simp add: exampleTile_fields le_Suc_eq all_conj_distrib)
  have zs: "\<forall>k\<le>length ?tiles. representable (sum_list (take k (map tile_y ?tiles)))"
    using rep by (simp add: exampleTile_fields le_Suc_eq all_conj_distrib)
  have mx: "representable (sum_list (map tile_x ?tiles) / real (length ?tiles))"
    and mz: "representable (sum_list (map tile_y ?tiles) / real (length ?tiles))"
    using rep by (simp_all add: exampleTile_fields)
  have d: "distance_f64 (exampleTile 0 0 (1 / 2)) (Fin 10) (Fin 2) = Fin 104"
    "distance_f64 (exampleTile 27 (- 3) 1) (Fin 10) (Fin 2) = Fin 314"
    "distance_f64 (exampleTile 3 9 (1 / 4)) (Fin 10) (Fin 2) = Fin 98"
    by (simp_all add: distance_f64_def Let_def exampleTile_fields sub64_def)
  have r: "findNearestTileIndex_f64 ?tiles (Fin 10) (Fin 2) = 2"
    by (simp add: findNearestTileIndex_f64_def findNearestTileIndex_f64_loop_step
        findNearestTileIndex_f64_loop_done d)
  note half = round64_fraction [of 13 1, simplified]
  have g: "sampleGroundHeight_f64 ?tiles (Fin 10) (Fin 2) = Fin (13 / 2)"
    by (simp add: sampleGroundHeight_f64_def r exampleTile_fields lit_values half)
  have x: "pose_x (initialCamera_f64 ?tiles) = Fin 10"
    and z: "pose_z (initialCamera_f64 ?tiles) = Fin 2"
    using initialCamera_f64_centroid [of ?tiles] xs zs mx mz
    by (simp_all add: exampleTile_fields)
  have "initialCamera_f64 ?tiles =
      \<lparr>pose_x = pose_x (initialCamera_f64 ?tiles),
       pose_y = add64 (sampleGroundHeight_f64 ?tiles (pose_x (initialCamera_f64 ?tiles))
                         (pose_z (initialCamera_f64 ?tiles))) (lit HUMAN_EYE_HEIGHT),
       pose_z = pose_z (initialCamera_f64 ?tiles),
       pose_yaw = mul64 (neg64 MATH_PI) (lit 0.12), pose_pitch = neg64 (lit 0.38)\<rparr>"
    using initialCamera_f64_centroid [of ?tiles] by (simp add: Let_def)
  then have full: "initialCamera_f64 ?tiles =
      \<lparr>pose_x = Fin 10, pose_y = add64 (Fin (13 / 2)) (lit HUMAN_EYE_HEIGHT), pose_z = Fin 2,
       pose_yaw = mul64 (neg64 MATH_PI) (lit 0.12), pose_pitch = neg64 (lit 0.38)\<rparr>"
    by (simp only: x z g)
  show ?thesis
    unfolding Let_def
    using initialCamera_f64_centroid [of "[]"] rep g full by simp
qed

subsection \<open>Projection in binary64\<close>

lemma finite64_simps [simp]:
  "finite64 (Fin r)" "\<not> finite64 PosInf" "\<not> finite64 NegInf" "\<not> finite64 NaN"
  by (simp_all add: finite64_def)

lemma finite64_obtain: "finite64 n \<Longrightarrow> \<exists>r. n = Fin r"
  by (cases n) simp_all

lemma projectPoint_f64_None_iff:
  "(projectPoint_f64 M point camera viewportWidth viewportHeight focalLength = None) =
     (le64 (depth_f64 M point camera) (lit NEAR_PLANE) \<or>
      ge64 (depth_f64 M point camera) (lit FAR_PLANE))"
  by (simp add: projectPoint_f64_def depth_f64_def Let_def)

lemma depth_f64_at_camera:
  assumes "finite64 (pose_x camera)" and "finite64 (pose_y camera)" and "finite64 (pose_z camera)"
    and "finite64 (Math_sin M (pose_yaw camera))" and "finite64 (Math_cos M (pose_yaw camera))"
    and "finite64 (Math_sin M (pose_pitch camera))" and "finite64 (Math_cos M (pose_pitch camera))"
  shows "depth_f64 M \<lparr>wp_x = pose_x camera, wp_y = pose_y camera, wp_z = pose_z camera\<rparr> camera
           = Fin 0"
proof -
  obtain cx cy cz sy cy' sp cp where v:
    "pose_x camera = Fin cx" "pose_y camera = Fin cy" "pose_z camera = Fin cz"
    "Math_sin M (pose_yaw camera) = Fin sy" "Math_cos M (pose_yaw camera) = Fin cy'"
    "Math_sin M (pose_pitch camera) = Fin sp" "Math_cos M (pose_pitch camera) = Fin cp"
    using assms finite64_obtain by metis
  show ?thesis by (simp add: depth_f64_def Let_def v sub64_def)
qed

text \<open>
  Claim C3. \<^verbatim>\<open>projectPoint\<close> rejects a point exactly when the depth that it
  computes along the forward axis, after the rotation by the yaw and then by the
  pitch, is at most the near plane or at least the far plane; the viewport and the
  focal length play no part. A point at the position of the camera is rejected when
  the camera's coordinates and the sines and cosines of its two angles are finite.
  The statement is about the computed depth; a point whose exact depth lies strictly
  between the planes can be rejected, as the example after the theorem shows.
\<close>

theorem projectPoint_f64_rejects_iff:
  "(projectPoint_f64 M point camera viewportWidth viewportHeight focalLength = None) =
     (le64 (depth_f64 M point camera) (lit NEAR_PLANE) \<or>
      ge64 (depth_f64 M point camera) (lit FAR_PLANE))
   \<and> (finite64 (pose_x camera) \<and> finite64 (pose_y camera) \<and> finite64 (pose_z camera) \<and>
      finite64 (Math_sin M (pose_yaw camera)) \<and> finite64 (Math_cos M (pose_yaw camera)) \<and>
      finite64 (Math_sin M (pose_pitch camera)) \<and> finite64 (Math_cos M (pose_pitch camera)) \<longrightarrow>
      projectPoint_f64 M \<lparr>wp_x = pose_x camera, wp_y = pose_y camera, wp_z = pose_z camera\<rparr>
        camera viewportWidth viewportHeight focalLength = None)"
  using depth_f64_at_camera [of camera M]
  by (simp add: projectPoint_f64_None_iff lit_values)

lemma roundedMath_zero:
  "Math_sin roundedMath (Fin 0) = Fin 0" "Math_cos roundedMath (Fin 0) = Fin 1"
  by (simp_all add: roundedMath_def)

theorem projectPoint_f64_rejects_iff_witness:
  "(let camera = \<lparr>pose_x = Fin 3, pose_y = Fin 2, pose_z = Fin (- 4), pose_yaw = Fin 0,
                  pose_pitch = Fin 0\<rparr>
    in finite64 (pose_x camera) \<and> finite64 (pose_y camera) \<and> finite64 (pose_z camera) \<and>
       finite64 (Math_sin roundedMath (pose_yaw camera)) \<and>
       finite64 (Math_cos roundedMath (pose_yaw camera)) \<and>
       finite64 (Math_sin roundedMath (pose_pitch camera)) \<and>
       finite64 (Math_cos roundedMath (pose_pitch camera)) \<and>
       projectPoint_f64 roundedMath \<lparr>wp_x = Fin 3, wp_y = Fin 2, wp_z = Fin (- 4)\<rparr> camera
         (Fin 800) (Fin 600) (Fin 900) = None)"
  using projectPoint_f64_rejects_iff
    [of roundedMath _ "\<lparr>pose_x = Fin 3, pose_y = Fin 2, pose_z = Fin (- 4), pose_yaw = Fin 0,
                  pose_pitch = Fin 0\<rparr>" "Fin 800" "Fin 600" "Fin 900"]
  by (simp add: roundedMath_zero)

text \<open>
  With yaw and pitch 0, the point at \<open>z = 1 / 2\<close> seen from \<open>z = - (1 / 2 ^ 70)\<close> has an
  exact depth beyond the near plane; the difference rounds to \<open>1 / 2\<close> and the point
  is rejected.
\<close>

lemma round64_near_half: "round64 (1 / 2 + 1 / 2 ^ 70) = Fin (1 / 2)"
proof -
  have "round64 (1 / 2 + 1 / 2 ^ 70) = Fin (of_int (2 ^ 52) * pow2 (- 1 - 52))"
    by (rule round64_eval) (simp_all add: pow2_numeral_simps)
  then show ?thesis by (simp add: pow2_numeral_simps)
qed

theorem projectPoint_f64_rejects_inside:
  "(let camera = \<lparr>pose_x = Fin 0, pose_y = Fin 0, pose_z = Fin (- (1 / 2 ^ 70)), pose_yaw = Fin 0,
                  pose_pitch = Fin 0\<rparr>;
        depth = sin 0 * (0 - 0) + cos 0 * (sin 0 * (0 - 0) + cos 0 * (1 / 2 - (- (1 / 2 ^ 70))))
    in projectPoint_f64 roundedMath \<lparr>wp_x = Fin 0, wp_y = Fin 0, wp_z = Fin (1 / 2)\<rparr> camera
         (Fin 800) (Fin 600) (Fin 900) = None \<and>
       \<not> (depth \<le> NEAR_PLANE \<or> depth \<ge> FAR_PLANE))"
proof -
  note near = round64_near_half [simplified]
  note half = round64_fraction [of 1 1, simplified]
  have "depth_f64 roundedMath \<lparr>wp_x = Fin 0, wp_y = Fin 0, wp_z = Fin (1 / 2)\<rparr>
          \<lparr>pose_x = Fin 0, pose_y = Fin 0, pose_z = Fin (- (1 / 2 ^ 70)), pose_yaw = Fin 0,
           pose_pitch = Fin 0\<rparr> = Fin (1 / 2)"
    by (simp add: depth_f64_def Let_def roundedMath_zero sub64_def near half)
  then show ?thesis
    by (simp add: projectPoint_f64_None_iff Let_def lit_def half NEAR_PLANE_def FAR_PLANE_def)
qed

text \<open>The product \<^verbatim>\<open>viewportWidth * 0.5\<close> is half the width, rounded.\<close>

lemma mul64_half: "mul64 (Fin w) (lit 0.5) = round64 (w / 2)"
  using round64_fraction [of 1 1] by (simp add: lit_def)

lemma add64_round64_zero: "add64 (round64 x) (Fin 0) = round64 x"
proof (cases "round64 x")
  case (Fin d)
  then show ?thesis using round64_idem [OF Fin] by simp
qed simp_all

lemma add64_mul64_zero: "add64 (mul64 a b) (Fin 0) = mul64 a b"
  by (cases a; cases b) (simp_all add: add64_round64_zero inf_of_def)

lemma lit_planes: "lit NEAR_PLANE = Fin NEAR_PLANE" "lit FAR_PLANE = Fin FAR_PLANE"
  using lit_values by (simp_all add: NEAR_PLANE_def FAR_PLANE_def)

text \<open>
  Claim C4. With yaw 0 and pitch 0, and a sine and cosine that are exact at 0, a
  point with the camera's \<open>x\<close> and \<open>y\<close> whose computed depth \<open>d\<close>, the rounded
  difference of its \<open>z\<close> and the camera's, lies strictly between the near and the far
  plane is projected: its screen \<open>x\<close> is the product \<^verbatim>\<open>viewportWidth * 0.5\<close>, the
  middle of the viewport, and its depth is \<open>d\<close>. (Its screen \<open>y\<close> is the horizon line
  at 0.57 of the viewport height.) The statement is about the computed depth; a
  point at an exact distance strictly between the planes can be rejected, as the
  example after the theorem shows.
\<close>

theorem projectPoint_f64_straight_ahead:
  assumes "Math_sin M (Fin 0) = Fin 0" and "Math_cos M (Fin 0) = Fin 1"
    and "pose_yaw camera = Fin 0" and "pose_pitch camera = Fin 0"
    and "pose_x camera = Fin cx" and "pose_y camera = Fin cy" and "pose_z camera = Fin cz"
    and "round64 (pz - cz) = Fin d" and "NEAR_PLANE < d" and "d < FAR_PLANE"
  shows "projectPoint_f64 M \<lparr>wp_x = Fin cx, wp_y = Fin cy, wp_z = Fin pz\<rparr> camera
           viewportWidth viewportHeight (Fin focalLength) =
         Some \<lparr>screen_x = mul64 viewportWidth (lit 0.5),
               screen_y = mul64 viewportHeight (lit 0.57), screen_depth = Fin d\<rparr>"
proof -
  have d0: "d \<noteq> 0" using assms(9) by (simp add: NEAR_PLANE_def)
  have again: "round64 d = Fin d" using round64_idem [OF assms(8)] .
  have planes: "\<not> le64 (Fin d) (lit NEAR_PLANE)" "\<not> ge64 (Fin d) (lit FAR_PLANE)"
    using assms(9,10) by (simp_all add: lit_planes ge64_def)
  show ?thesis
    unfolding projectPoint_f64_def Let_def
    using planes d0
    by (simp add: assms(1-8) again add64_mul64_zero sub64_def)
qed

theorem projectPoint_f64_straight_ahead_witness:
  "(let camera = \<lparr>pose_x = Fin 3, pose_y = Fin 2, pose_z = Fin (- 4), pose_yaw = Fin 0,
                  pose_pitch = Fin 0\<rparr>
    in Math_sin roundedMath (Fin 0) = Fin 0 \<and> Math_cos roundedMath (Fin 0) = Fin 1 \<and>
       pose_yaw camera = Fin 0 \<and> pose_pitch camera = Fin 0 \<and>
       round64 (46 - (- 4)) = Fin 50 \<and> NEAR_PLANE < 50 \<and> 50 < FAR_PLANE \<and>
       projectPoint_f64 roundedMath \<lparr>wp_x = Fin 3, wp_y = Fin 2, wp_z = Fin 46\<rparr> camera
         (Fin 800) (Fin 600) (Fin 900) =
       Some \<lparr>screen_x = Fin 400, screen_y = mul64 (Fin 600) (lit 0.57), screen_depth = Fin 50\<rparr>)"
proof -
  note half = round64_fraction [of 1 1, simplified]
  have w: "mul64 (Fin 800) (lit 0.5) = Fin 400" by (simp add: lit_def half)
  have r: "round64 (46 - (- 4)) = Fin 50" by simp
  have n: "NEAR_PLANE < 50" "50 < FAR_PLANE" by (simp_all add: NEAR_PLANE_def FAR_PLANE_def)
  have "projectPoint_f64 roundedMath \<lparr>wp_x = Fin 3, wp_y = Fin 2, wp_z = Fin 46\<rparr>
          \<lparr>pose_x = Fin 3, pose_y = Fin 2, pose_z = Fin (- 4), pose_yaw = Fin 0,
           pose_pitch = Fin 0\<rparr> (Fin 800) (Fin 600) (Fin 900) =
        Some \<lparr>screen_x = mul64 (Fin 800) (lit 0.5), screen_y = mul64 (Fin 600) (lit 0.57),
              screen_depth = Fin 50\<rparr>"
    by (rule projectPoint_f64_straight_ahead [OF roundedMath_zero _ _ _ _ _ r n]) simp_all
  then show ?thesis
    unfolding Let_def using roundedMath_zero r n by (simp only: w) simp
qed

text \<open>
  With yaw and pitch 0, the point at \<open>z = 1100\<close> is straight ahead of the camera at
  \<open>z = 1 / 2 ^ 60\<close>, at a distance below the far plane; the difference rounds to 1100
  and the point is rejected.
\<close>

lemma round64_below_far: "round64 (1100 - 1 / 2 ^ 60) = Fin 1100"
proof -
  have "round64 (1100 - 1 / 2 ^ 60) = Fin (of_int (1100 * 2 ^ 42) * pow2 (10 - 52))"
    by (rule round64_eval) (simp_all add: pow2_numeral_simps)
  then show ?thesis by (simp add: pow2_numeral_simps)
qed

theorem projectPoint_f64_rejects_straight_ahead:
  "(let camera = \<lparr>pose_x = Fin 0, pose_y = Fin 0, pose_z = Fin (1 / 2 ^ 60), pose_yaw = Fin 0,
                  pose_pitch = Fin 0\<rparr>;
        D = 1100 - 1 / 2 ^ 60
    in pose_yaw camera = Fin 0 \<and> pose_pitch camera = Fin 0 \<and>
       NEAR_PLANE < D \<and> D < FAR_PLANE \<and> 1 / 2 ^ 60 + D = 1100 \<and>
       projectPoint_f64 roundedMath \<lparr>wp_x = Fin 0, wp_y = Fin 0, wp_z = Fin 1100\<rparr> camera
         (Fin 800) (Fin 600) (Fin 900) = None)"
proof -
  note far = round64_below_far [simplified]
  note half = round64_fraction [of 1 1, simplified]
  have "depth_f64 roundedMath \<lparr>wp_x = Fin 0, wp_y = Fin 0, wp_z = Fin 1100\<rparr>
          \<lparr>pose_x = Fin 0, pose_y = Fin 0, pose_z = Fin (1 / 2 ^ 60), pose_yaw = Fin 0,
           pose_pitch = Fin 0\<rparr> = Fin 1100"
    by (simp add: depth_f64_def Let_def roundedMath_zero sub64_def far)
  then show ?thesis
    by (simp add: projectPoint_f64_None_iff Let_def lit_def half ge64_def NEAR_PLANE_def
        FAR_PLANE_def)
qed

end
